theory Spec2Isabelle
  imports Complex_Main "HOL-Library.AList"
begin

section \<open>JavaScript values\<close>

text \<open>
  The request sections, the \<open>details\<close> of an error and the JSON bodies handed to
  \<open>res.json\<close> are untyped JavaScript values (\<open>any\<close>). Numbers are kept to the integers
  (so \<open>NaN\<close>, the other falsy number, does not occur); an object is the list of its own
  properties in insertion order, which is the order \<open>Object.entries\<close> and
  \<open>JSON.stringify\<close> follow for string keys.
\<close>

datatype jsval =
    JUndefined
  | JNull
  | JBool bool
  | JNum int
  | JStr string
  | JArr "jsval list"
  | JObj "(string \<times> jsval) list"

text \<open>The test of \<open>if (v)\<close>, \<open>v && e\<close> and \<open>v || e\<close>.\<close>

fun truthy :: "jsval \<Rightarrow> bool" where
  "truthy JUndefined = False"
| "truthy JNull = False"
| "truthy (JBool b) = b"
| "truthy (JNum n) = (n \<noteq> 0)"
| "truthy (JStr s) = (s \<noteq> [])"
| "truthy (JArr xs) = True"
| "truthy (JObj kvs) = True"

text \<open>
  \<open>res.json(obj)\<close> serialises with \<open>JSON.stringify\<close>, which leaves out every property whose
  value is \<open>undefined\<close>: \<open>json_fields\<close> is the list of properties the client receives and
  \<open>json_get\<close> reads one of them.
\<close>

fun json_fields :: "jsval \<Rightarrow> (string \<times> jsval) list" where
  "json_fields (JObj kvs) = filter (\<lambda>kv. snd kv \<noteq> JUndefined) kvs"
| "json_fields v = []"

definition json_keys :: "jsval \<Rightarrow> string list" where
  "json_keys v = map fst (json_fields v)"

definition json_get :: "string \<Rightarrow> jsval \<Rightarrow> jsval option" where
  "json_get k v = map_of (json_fields v) k"

text \<open>\<open>obj[k]\<close>: the property, or \<open>undefined\<close> when the object has none of that name.\<close>

fun obj_get :: "jsval \<Rightarrow> string \<Rightarrow> jsval" where
  "obj_get (JObj kvs) k = (case map_of kvs k of Some v \<Rightarrow> v | None \<Rightarrow> JUndefined)"
| "obj_get v k = JUndefined"

text \<open>\<open>String(n)\<close> for a non-negative integer: its decimal digits.\<close>

fun String_of_nat :: "nat \<Rightarrow> string" where
  "String_of_nat n =
     (if n < 10 then [''0123456789'' ! n]
      else String_of_nat (n div 10) @ [''0123456789'' ! (n mod 10)])"

declare String_of_nat.simps [simp del]

text \<open>\<open>Array.prototype.join\<close> on an array of strings.\<close>

fun join :: "string list \<Rightarrow> string \<Rightarrow> string" where
  "join [] sep = []"
| "join [x] sep = x"
| "join (x # y # ys) sep = x @ sep @ join (y # ys) sep"

text \<open>An optional string property (\<open>string | undefined\<close>) read as a value.\<close>

fun of_optional :: "string option \<Rightarrow> jsval" where
  "of_optional None = JUndefined"
| "of_optional (Some s) = JStr s"


section \<open>Dates (the runtime's \<open>Date\<close>)\<close>

text \<open>
  \<open>new Date()\<close> holds a time value: the milliseconds since 1 January 1970 UTC, an
  integer of magnitude at most 8.64e15. \<open>toISOString\<close> prints its UTC calendar date and
  time. The year and the day within the year are found by stepping from 1970 one year
  at a time; month and day of the month follow the table of ECMAScript
  (\<open>MonthFromTime\<close>, \<open>DateFromTime\<close>), with \<open>leap\<close> 1 in a leap year and 0 otherwise.
\<close>

definition DaysInYear :: "int \<Rightarrow> int" where
  "DaysInYear y =
     (if y mod 4 \<noteq> 0 then 365
      else if y mod 100 \<noteq> 0 then 366
      else if y mod 400 \<noteq> 0 then 365
      else 366)"

function year_and_day :: "int \<Rightarrow> int \<Rightarrow> int \<times> int" where
  "year_and_day y d =
     (if d < 0 then year_and_day (y - 1) (d + DaysInYear (y - 1))
      else if DaysInYear y \<le> d then year_and_day (y + 1) (d - DaysInYear y)
      else (y, d))"
  by pat_completeness auto

termination
proof (relation "measure (\<lambda>(y, d). if d < 0 then nat (- d) + 366 else nat d)")
  have b: "365 \<le> DaysInYear z \<and> DaysInYear z \<le> 366" for z
    by (simp add: DaysInYear_def)
  show "wf (measure (\<lambda>(y, d). if d < 0 then nat (- d) + 366 else nat d))" by simp
  show "((y - 1, d + DaysInYear (y - 1)), (y, d))
          \<in> measure (\<lambda>(y, d). if d < 0 then nat (- d) + 366 else nat d)"
    if "d < 0" for y d
    using that b [of "y - 1"] by auto
  show "((y + 1, d - DaysInYear y), (y, d))
          \<in> measure (\<lambda>(y, d). if d < 0 then nat (- d) + 366 else nat d)"
    if "\<not> d < 0" "DaysInYear y \<le> d" for y d
    using that b [of y] by auto
qed

declare year_and_day.simps [simp del]

definition msPerDay :: int where "msPerDay = 86400000"

definition Day :: "int \<Rightarrow> int" where "Day t = t div msPerDay"

definition MonthFromDay :: "int \<Rightarrow> int \<Rightarrow> int" where
  "MonthFromDay d leap =
     (if d < 31 then 0
      else if d < 59 + leap then 1
      else if d < 90 + leap then 2
      else if d < 120 + leap then 3
      else if d < 151 + leap then 4
      else if d < 181 + leap then 5
      else if d < 212 + leap then 6
      else if d < 243 + leap then 7
      else if d < 273 + leap then 8
      else if d < 304 + leap then 9
      else if d < 334 + leap then 10
      else 11)"

definition DateFromDay :: "int \<Rightarrow> int \<Rightarrow> int" where
  "DateFromDay d leap =
     (if d < 31 then d + 1
      else if d < 59 + leap then d - 30
      else if d < 90 + leap then d - 58 - leap
      else if d < 120 + leap then d - 89 - leap
      else if d < 151 + leap then d - 119 - leap
      else if d < 181 + leap then d - 150 - leap
      else if d < 212 + leap then d - 180 - leap
      else if d < 243 + leap then d - 211 - leap
      else if d < 273 + leap then d - 242 - leap
      else if d < 304 + leap then d - 272 - leap
      else if d < 334 + leap then d - 303 - leap
      else d - 333 - leap)"

text \<open>\<open>s.padStart(w, "0")\<close>.\<close>

definition padStart :: "nat \<Rightarrow> string \<Rightarrow> string" where
  "padStart w s = replicate (w - length s) CHR ''0'' @ s"

text \<open>
  Years 0 to 9999 are printed with four digits, every other year with a sign and six.
\<close>

definition year_string :: "int \<Rightarrow> string" where
  "year_string y =
     (if 0 \<le> y \<and> y \<le> 9999 then padStart 4 (String_of_nat (nat y))
      else (if y < 0 then ''-'' else ''+'') @ padStart 6 (String_of_nat (nat \<bar>y\<bar>)))"

definition toISOString :: "int \<Rightarrow> string" where
  "toISOString t =
     (case year_and_day 1970 (Day t) of
        (y, d) \<Rightarrow>
          (let leap = (if DaysInYear y = 366 then 1 else 0) in
           year_string y @ ''-'' @
           padStart 2 (String_of_nat (nat (MonthFromDay d leap + 1))) @ ''-'' @
           padStart 2 (String_of_nat (nat (DateFromDay d leap))) @ ''T'' @
           padStart 2 (String_of_nat (nat (t div 3600000 mod 24))) @ '':'' @
           padStart 2 (String_of_nat (nat (t div 60000 mod 60))) @ '':'' @
           padStart 2 (String_of_nat (nat (t div 1000 mod 60))) @ ''.'' @
           padStart 3 (String_of_nat (nat (t mod 1000))) @ ''Z''))"


section \<open>Error types (types.ts)\<close>

datatype ErrorCode =
    BAD_REQUEST
  | UNAUTHORIZED
  | FORBIDDEN
  | NOT_FOUND
  | CONFLICT
  | VALIDATION_ERROR
  | RATE_LIMIT_EXCEEDED
  | INTERNAL_SERVER_ERROR
  | SERVICE_UNAVAILABLE
  | DATABASE_ERROR

text \<open>The string each member of the enum stands for; it is what reaches the JSON body.\<close>

fun ErrorCode_value :: "ErrorCode \<Rightarrow> string" where
  "ErrorCode_value BAD_REQUEST = ''BAD_REQUEST''"
| "ErrorCode_value UNAUTHORIZED = ''UNAUTHORIZED''"
| "ErrorCode_value FORBIDDEN = ''FORBIDDEN''"
| "ErrorCode_value NOT_FOUND = ''NOT_FOUND''"
| "ErrorCode_value CONFLICT = ''CONFLICT''"
| "ErrorCode_value VALIDATION_ERROR = ''VALIDATION_ERROR''"
| "ErrorCode_value RATE_LIMIT_EXCEEDED = ''RATE_LIMIT_EXCEEDED''"
| "ErrorCode_value INTERNAL_SERVER_ERROR = ''INTERNAL_SERVER_ERROR''"
| "ErrorCode_value SERVICE_UNAVAILABLE = ''SERVICE_UNAVAILABLE''"
| "ErrorCode_value DATABASE_ERROR = ''DATABASE_ERROR''"

text \<open>The members of \<open>StatusCodes\<close> (package http-status-codes) the handlers use.\<close>

definition StatusCodes_BAD_REQUEST :: nat where "StatusCodes_BAD_REQUEST = 400"
definition StatusCodes_UNAUTHORIZED :: nat where "StatusCodes_UNAUTHORIZED = 401"
definition StatusCodes_CONFLICT :: nat where "StatusCodes_CONFLICT = 409"
definition StatusCodes_INTERNAL_SERVER_ERROR :: nat where "StatusCodes_INTERNAL_SERVER_ERROR = 500"
definition StatusCodes_SERVICE_UNAVAILABLE :: nat where "StatusCodes_SERVICE_UNAVAILABLE = 503"

text \<open>
  One issue of a \<open>ZodError\<close>: the path into the value (property names and array indices),
  a message and the issue code.
\<close>

datatype path_seg = Key string | Index nat

fun path_seg_string :: "path_seg \<Rightarrow> string" where
  "path_seg_string (Key s) = s"
| "path_seg_string (Index n) = String_of_nat n"

datatype ZodIssue =
  ZodIssue (issue_path: "path_seg list") (issue_message: string) (issue_code: string)

text \<open>The fields \<open>AppError\<close> adds to \<open>Error\<close>.\<close>

record AppError_fields =
  statusCode :: nat
  isOperational :: bool
  errorCode :: ErrorCode
  details :: jsval

text \<open>
  A thrown error. \<open>cls\<close> answers the \<open>instanceof\<close> tests: a \<open>ZodError\<close> with its issues
  (\<open>err.errors\<close>), an \<open>AppError\<close> with its own fields, or any other \<open>Error\<close>. Every error
  has a \<open>name\<close>, a \<open>message\<close> and possibly a \<open>stack\<close>; \<open>code\<close> is the property drivers
  attach (\<open>undefined\<close> when there is none).
\<close>

datatype error_class = ZodError "ZodIssue list" | AppError AppError_fields | PlainError

record js_error =
  cls :: error_class
  name :: string
  message :: string
  code :: jsval
  stack :: "string option"

text \<open>
  \<open>new Error(message)\<close>; \<open>trace\<close> is the stack trace the runtime records at construction.
\<close>

definition Error_new :: "string \<Rightarrow> string \<Rightarrow> js_error" where
  "Error_new message' trace =
     \<lparr> cls = PlainError, name = ''Error'', message = message', code = JUndefined,
       stack = Some trace \<rparr>"

text \<open>
  \<open>new AppError(message, statusCode = 500, errorCode = INTERNAL_SERVER_ERROR, details?)\<close>.
  An argument left out is \<open>None\<close> (\<open>JUndefined\<close> for \<open>details\<close>) and takes its default;
  \<open>trace\<close> is the text \<open>Error.captureStackTrace\<close> stores in \<open>stack\<close>. The class sets no
  \<open>name\<close> of its own, so the name is the one inherited from \<open>Error\<close>.
\<close>

definition AppError_new ::
  "string \<Rightarrow> nat option \<Rightarrow> ErrorCode option \<Rightarrow> jsval \<Rightarrow> string \<Rightarrow> js_error" where
  "AppError_new message' statusCode' errorCode' details' trace =
     \<lparr> cls = AppError
         \<lparr> statusCode = (case statusCode' of None \<Rightarrow> 500 | Some c \<Rightarrow> c),
           isOperational = True,
           errorCode = (case errorCode' of None \<Rightarrow> INTERNAL_SERVER_ERROR | Some c \<Rightarrow> c),
           details = details' \<rparr>,
       name = ''Error'',
       message = message',
       code = JUndefined,
       stack = Some trace \<rparr>"

definition badRequest :: "string \<Rightarrow> jsval \<Rightarrow> string \<Rightarrow> js_error" where
  "badRequest message' details' trace =
     AppError_new message' (Some 400) (Some BAD_REQUEST) details' trace"

definition unauthorized :: "string option \<Rightarrow> jsval \<Rightarrow> string \<Rightarrow> js_error" where
  "unauthorized message' details' trace =
     AppError_new (case message' of None \<Rightarrow> ''Unauthorized'' | Some m \<Rightarrow> m)
       (Some 401) (Some UNAUTHORIZED) details' trace"

definition forbidden :: "string option \<Rightarrow> jsval \<Rightarrow> string \<Rightarrow> js_error" where
  "forbidden message' details' trace =
     AppError_new (case message' of None \<Rightarrow> ''Forbidden'' | Some m \<Rightarrow> m)
       (Some 403) (Some FORBIDDEN) details' trace"

definition notFound :: "string option \<Rightarrow> jsval \<Rightarrow> string \<Rightarrow> js_error" where
  "notFound message' details' trace =
     AppError_new (case message' of None \<Rightarrow> ''Resource not found'' | Some m \<Rightarrow> m)
       (Some 404) (Some NOT_FOUND) details' trace"

definition conflict :: "string \<Rightarrow> jsval \<Rightarrow> string \<Rightarrow> js_error" where
  "conflict message' details' trace =
     AppError_new message' (Some 409) (Some CONFLICT) details' trace"

definition validation :: "string \<Rightarrow> jsval \<Rightarrow> string \<Rightarrow> js_error" where
  "validation message' details' trace =
     AppError_new message' (Some 422) (Some VALIDATION_ERROR) details' trace"

definition internal :: "string option \<Rightarrow> jsval \<Rightarrow> string \<Rightarrow> js_error" where
  "internal message' details' trace =
     AppError_new (case message' of None \<Rightarrow> ''Internal server error'' | Some m \<Rightarrow> m)
       (Some 500) (Some INTERNAL_SERVER_ERROR) details' trace"


section \<open>Configuration (config.ts)\<close>

text \<open>
  \<open>config\<close> is computed once from \<open>process.env\<close>, here the map \<open>penv\<close>. A variable set to
  the empty string is falsy for \<open>||\<close>.
\<close>

record Config =
  env :: string
  port :: jsval
  isProduction :: bool
  isDevelopment :: bool
  isTest :: bool

definition config :: "(string \<rightharpoonup> string) \<Rightarrow> Config" where
  "config penv =
     \<lparr> env = (case penv ''NODE_ENV'' of
                None \<Rightarrow> ''development''
              | Some v \<Rightarrow> if v \<noteq> [] then v else ''development''),
       port = (case penv ''PORT'' of
                None \<Rightarrow> JNum 3000
              | Some v \<Rightarrow> if v \<noteq> [] then JStr v else JNum 3000),
       isProduction = (penv ''NODE_ENV'' = Some ''production''),
       isDevelopment = (penv ''NODE_ENV'' = Some ''development''),
       isTest = (penv ''NODE_ENV'' = Some ''test'') \<rparr>"


section \<open>Requests and what a middleware does\<close>

text \<open>The sections of a request a schema can be applied to (\<open>ValidationSource\<close>).\<close>

datatype ValidationSource = Body | Query | Params | Headers

fun source_key :: "ValidationSource \<Rightarrow> string" where
  "source_key Body = ''body''"
| "source_key Query = ''query''"
| "source_key Params = ''params''"
| "source_key Headers = ''headers''"

text \<open>
  The part of the Express request the handlers read or write: the four sections, the
  request id of the request-id middleware and the properties the error handler logs.
  \<open>writable\<close> tells which sections can be assigned. Express 4 lets all four be assigned;
  in Express 5, which the package also accepts, \<open>req.query\<close> has a getter and no setter,
  and an assignment to it throws a \<open>TypeError\<close> (the compiled module is strict).
\<close>

record Request =
  body :: jsval
  query :: jsval
  params :: jsval
  headers :: jsval
  writable :: "ValidationSource \<Rightarrow> bool"
  requestId :: "string option"
  originalUrl :: string
  path :: string
  req_method :: string
  ip :: "string option"

text \<open>\<open>req.get(name)\<close> reads a request header.\<close>

definition req_header :: "Request \<Rightarrow> string \<Rightarrow> jsval" where
  "req_header req h = obj_get (headers req) h"

text \<open>
  What a middleware does besides changing the request, in the order it does it:
  a call of \<open>logger.error\<close>, a response \<open>res.status(code).json(body)\<close>, or a call of
  \<open>next\<close>, without an argument or with an error for the error-handling middleware.
\<close>

datatype effect =
    Logger_error string jsval
  | Status_json nat jsval
  | Next "js_error option"


section \<open>Validators (validators/index.ts)\<close>

fun req_get :: "Request \<Rightarrow> ValidationSource \<Rightarrow> jsval" where
  "req_get req Body = body req"
| "req_get req Query = query req"
| "req_get req Params = params req"
| "req_get req Headers = headers req"

fun req_set :: "Request \<Rightarrow> ValidationSource \<Rightarrow> jsval \<Rightarrow> Request" where
  "req_set req Body v = req\<lparr>body := v\<rparr>"
| "req_set req Query v = req\<lparr>query := v\<rparr>"
| "req_set req Params v = req\<lparr>params := v\<rparr>"
| "req_set req Headers v = req\<lparr>headers := v\<rparr>"

text \<open>
  The error of an assignment to a section that has only a getter. The message is the
  runtime's; the frames of the stack are left out.
\<close>

definition assignment_TypeError :: "ValidationSource \<Rightarrow> js_error" where
  "assignment_TypeError source =
     \<lparr> cls = PlainError, name = ''TypeError'',
       message = ''Cannot set property '' @ source_key source @
                 '' of #<IncomingMessage> which has only a getter'',
       code = JUndefined,
       stack = Some (''TypeError: Cannot set property '' @ source_key source @
                     '' of #<IncomingMessage> which has only a getter'') \<rparr>"

text \<open>
  A schema is used through \<open>schema.parse(data)\<close> alone, which returns the parsed value or
  throws: a \<open>ZodError\<close> when the data violates the schema, anything else when a refinement
  or transform of the schema fails on its own.
\<close>

datatype parse_result = Returns jsval | Throws js_error

type_synonym ZodSchema = "jsval \<Rightarrow> parse_result"

text \<open>
  \<open>validate(schema, source)\<close>; the caller's default for \<open>source\<close> is \<open>Body\<close>, and the
  options argument is not read. The middleware returns the request as it leaves it and
  the effects it had; what the later stages do once \<open>next\<close> is called is theirs. The
  assignment \<open>req[source] = validated\<close> is inside the \<open>try\<close>: when it throws, the error is
  not a \<open>ZodError\<close> and goes to \<open>next\<close>.
\<close>

definition validate :: "ZodSchema \<Rightarrow> ValidationSource \<Rightarrow> Request \<Rightarrow> Request \<times> effect list" where
  "validate schema source req =
     (let data = req_get req source in
      case schema data of
        Returns validated \<Rightarrow>
          if writable req source then (req_set req source validated, [Next None])
          else (req, [Next (Some (assignment_TypeError source))])
      | Throws error \<Rightarrow>
          (case cls error of
             ZodError issues \<Rightarrow>
               (let formattedErrors =
                      map (\<lambda>err. JObj
                             [(''field'', JStr (join (map path_seg_string (issue_path err)) ''.'')),
                              (''message'', JStr (issue_message err)),
                              (''code'', JStr (issue_code err))]) issues
                in (req, [Status_json StatusCodes_BAD_REQUEST (JObj
                             [(''success'', JBool False),
                              (''message'', JStr ''Validation failed''),
                              (''errors'', JArr formattedErrors)])]))
           | _ \<Rightarrow> (req, [Next (Some error)])))"

text \<open>
  The loop of \<open>validateAll\<close> over \<open>Object.entries(schemas)\<close>, with the request and the
  \<open>errors\<close> array as its state. The inner \<open>catch\<close> has no branch for an error that is not a
  \<open>ZodError\<close>: the loop goes on to the next entry, whether the error came from the parse
  or from the assignment to a section that cannot be assigned.
\<close>

fun validateAll_loop ::
  "(ValidationSource \<times> ZodSchema) list \<Rightarrow> Request \<Rightarrow> jsval list \<Rightarrow> Request \<times> jsval list" where
  "validateAll_loop [] req errors = (req, errors)"
| "validateAll_loop ((source, schema) # rest) req errors =
     (let data = req_get req source in
      case schema data of
        Returns validated \<Rightarrow>
          if writable req source then validateAll_loop rest (req_set req source validated) errors
          else validateAll_loop rest req errors
      | Throws error \<Rightarrow>
          (case cls error of
             ZodError issues \<Rightarrow>
               validateAll_loop rest req
                 (errors @ map (\<lambda>err. JObj
                             [(''source'', JStr (source_key source)),
                              (''field'', JStr (join (map path_seg_string (issue_path err)) ''.'')),
                              (''message'', JStr (issue_message err))]) issues)
           | _ \<Rightarrow> validateAll_loop rest req errors))"

text \<open>
  \<open>validateAll(schemas)\<close>, the schemas given as the entries of the object in insertion
  order. Nothing in the outer \<open>try\<close> throws here, so its \<open>catch\<close> has no branch.
\<close>

definition validateAll ::
  "(ValidationSource \<times> ZodSchema) list \<Rightarrow> Request \<Rightarrow> Request \<times> effect list" where
  "validateAll schemas req =
     (case validateAll_loop schemas req [] of
        (req', errors) \<Rightarrow>
          if length errors > 0
          then (req', [Status_json StatusCodes_BAD_REQUEST (JObj
                         [(''success'', JBool False),
                          (''message'', JStr ''Validation failed''),
                          (''errors'', JArr errors)])])
          else (req', [Next None]))"


section \<open>Error handling (errorHandler.ts)\<close>

text \<open>\<open>trace\<close> is the stack trace the runtime records for the new error.\<close>

definition notFoundHandler :: "string \<Rightarrow> Request \<Rightarrow> effect list" where
  "notFoundHandler trace req =
     (let error = notFound (Some (''Route not found: '' @ originalUrl req)) JUndefined trace
      in [Next (Some error)])"

text \<open>
  The first part of \<open>errorHandler\<close>: the four variables \<open>statusCode\<close>, \<open>message\<close>,
  \<open>errorCode\<close> and \<open>details\<close> after the chain of tests.
\<close>

definition errorHandler_classify :: "js_error \<Rightarrow> nat \<times> string \<times> ErrorCode \<times> jsval" where
  "errorHandler_classify err =
     (case cls err of
        ZodError issues \<Rightarrow>
          (StatusCodes_BAD_REQUEST, ''Validation failed'', VALIDATION_ERROR,
           JArr (map (\<lambda>e. JObj
                   [(''field'', JStr (join (map path_seg_string (issue_path e)) ''.'')),
                    (''message'', JStr (issue_message e)),
                    (''code'', JStr (issue_code e))]) issues))
      | AppError a \<Rightarrow> (statusCode a, message err, errorCode a, details a)
      | PlainError \<Rightarrow>
          if name err = ''ValidationError''
          then (StatusCodes_BAD_REQUEST, ''Validation Error'', VALIDATION_ERROR, JUndefined)
          else if name err = ''UnauthorizedError'' \<or> name err = ''JsonWebTokenError''
          then (StatusCodes_UNAUTHORIZED, ''Unauthorized'', UNAUTHORIZED, JUndefined)
          else if name err = ''CastError''
          then (StatusCodes_BAD_REQUEST, ''Invalid ID format'', BAD_REQUEST, JUndefined)
          else if code err = JNum 11000
          then (StatusCodes_CONFLICT, ''Duplicate field value'', CONFLICT, JUndefined)
          else if code err = JStr ''ECONNREFUSED''
          then (StatusCodes_SERVICE_UNAVAILABLE, ''Service unavailable'', SERVICE_UNAVAILABLE,
                JUndefined)
          else (StatusCodes_INTERNAL_SERVER_ERROR,
                (if message err \<noteq> [] then message err else ''Something went wrong''),
                INTERNAL_SERVER_ERROR, JUndefined))"

text \<open>
  \<open>errorHandler\<close>, with the configuration and the clock made explicit: \<open>now\<close> is the time
  value of \<open>new Date()\<close> when the response is built. An assignment to a property the
  object does not have yet appends it.
\<close>

definition errorHandler :: "Config \<Rightarrow> int \<Rightarrow> js_error \<Rightarrow> Request \<Rightarrow> effect list" where
  "errorHandler cfg now err req =
     (case errorHandler_classify err of
        (statusCode', message', errorCode', details') \<Rightarrow>
          (let logged =
                 Logger_error (''['' @ String_of_nat statusCode' @ ''] '' @ message')
                   (JObj ([(''errorCode'', JStr (ErrorCode_value errorCode')),
                           (''error'', JStr (message err)),
                           (''stack'', of_optional (stack err)),
                           (''path'', JStr (path req)),
                           (''method'', JStr (req_method req)),
                           (''requestId'', of_optional (requestId req)),
                           (''ip'', of_optional (ip req)),
                           (''userAgent'', req_header req ''user-agent'')]
                          @ (if truthy details' then [(''details'', details')] else [])));
               errorResponse =
                 [(''success'', JBool False),
                  (''message'', JStr message'),
                  (''errorCode'', JStr (ErrorCode_value errorCode')),
                  (''requestId'', of_optional (requestId req)),
                  (''timestamp'', JStr (toISOString now))];
               errorResponse =
                 (if truthy details'
                  then AList.update ''errors'' details' errorResponse
                  else errorResponse);
               errorResponse =
                 (if isDevelopment cfg \<and> truthy (of_optional (stack err))
                  then AList.update ''stack'' (of_optional (stack err)) errorResponse
                  else errorResponse)
           in [logged, Status_json statusCode' (JObj errorResponse)]))"

text \<open>
  \<open>addErrorHandlers\<close> registers \<open>notFoundHandler\<close> and then \<open>errorHandler\<close>. A request no
  route answered reaches the first; Express hands the error given to \<open>next\<close> to the
  error-handling middleware registered after it.
\<close>

definition addErrorHandlers :: "Config \<Rightarrow> int \<Rightarrow> string \<Rightarrow> Request \<Rightarrow> effect list" where
  "addErrorHandlers cfg now trace req =
     concat (map (\<lambda>e. case e of
                        Next (Some error) \<Rightarrow> errorHandler cfg now error req
                      | _ \<Rightarrow> [e])
                 (notFoundHandler trace req))"


section \<open>Numbers and pagination metadata (response helpers)\<close>

text \<open>
  A JavaScript number is an IEEE 754 double: a finite value (a rational here, \<open>Fin 0\<close>
  being \<open>+0\<close>), \<open>-0\<close>, an infinity or \<open>NaN\<close>.
\<close>

datatype number = Fin rat | NegZero | Infinity | NegInfinity | NaN

text \<open>
  The number of binary digits of a natural number, and the exponent \<open>e\<close> of a positive
  rational \<open>q\<close>, the one with \<open>2^e \<le> q < 2^(e+1)\<close>.
\<close>

fun bitlen :: "nat \<Rightarrow> nat" where
  "bitlen n = (if n = 0 then 0 else Suc (bitlen (n div 2)))"

declare bitlen.simps [simp del]

definition binade :: "rat \<Rightarrow> int" where
  "binade q =
     (case quotient_of q of
        (a, b) \<Rightarrow>
          (let d = int (bitlen (nat a)) - int (bitlen (nat b))
           in if power_int 2 d \<le> q then d else d - 1))"

text \<open>
  Rounding of an exact result to a double, to nearest with ties to even: the magnitude
  is rounded to a multiple of the spacing of its binade (53 significant bits; below
  \<open>2^-1022\<close> the spacing stays \<open>2^-1074\<close>), a result of \<open>2^1024\<close> or more is an infinity and
  a result of zero keeps the sign.
\<close>

definition round_half_even :: "rat \<Rightarrow> int" where
  "round_half_even m =
     (let f = \<lfloor>m\<rfloor>; frac = m - of_int f
      in if frac < 1 / 2 then f
         else if 1 / 2 < frac then f + 1
         else if even f then f else f + 1)"

definition round_magnitude :: "rat \<Rightarrow> rat" where
  "round_magnitude q =
     (let e = max (binade q) (- 1022); ulp = power_int 2 (e - 52)
      in of_int (round_half_even (q / ulp)) * ulp)"

definition round_double :: "rat \<Rightarrow> number" where
  "round_double q =
     (let v = round_magnitude \<bar>q\<bar>
      in if power_int 2 1024 \<le> v then (if q < 0 then NegInfinity else Infinity)
         else if v = 0 then (if q < 0 then NegZero else Fin 0)
         else Fin (if q < 0 then - v else v))"

fun is_zero :: "number \<Rightarrow> bool" where
  "is_zero (Fin q) = (q = 0)"
| "is_zero NegZero = True"
| "is_zero x = False"

fun is_infinite :: "number \<Rightarrow> bool" where
  "is_infinite Infinity = True"
| "is_infinite NegInfinity = True"
| "is_infinite x = False"

fun negative :: "number \<Rightarrow> bool" where
  "negative (Fin q) = (q < 0)"
| "negative NegZero = True"
| "negative NegInfinity = True"
| "negative x = False"

fun magnitude :: "number \<Rightarrow> rat" where
  "magnitude (Fin q) = q"
| "magnitude x = 0"

text \<open>\<open>x / y\<close> on numbers.\<close>

definition divide_number :: "number \<Rightarrow> number \<Rightarrow> number" where
  "divide_number x y =
     (let neg = (negative x \<noteq> negative y) in
      if x = NaN \<or> y = NaN then NaN
      else if is_infinite x \<and> is_infinite y then NaN
      else if is_zero x \<and> is_zero y then NaN
      else if is_infinite x \<or> is_zero y then (if neg then NegInfinity else Infinity)
      else if is_zero x \<or> is_infinite y then (if neg then NegZero else Fin 0)
      else round_double (magnitude x / magnitude y))"

text \<open>\<open>Math.ceil\<close>: exact on a double; a negative number above \<open>-1\<close> gives \<open>-0\<close>.\<close>

fun Math_ceil :: "number \<Rightarrow> number" where
  "Math_ceil (Fin q) = (if q < 0 \<and> \<lceil>q\<rceil> = 0 then NegZero else Fin (of_int \<lceil>q\<rceil>))"
| "Math_ceil x = x"

text \<open>\<open>x < y\<close>: false whenever an operand is \<open>NaN\<close>; the two zeros are equal.\<close>

fun less_number :: "number \<Rightarrow> number \<Rightarrow> bool" where
  "less_number NaN y = False"
| "less_number x NaN = False"
| "less_number x NegInfinity = False"
| "less_number Infinity y = False"
| "less_number NegInfinity y = True"
| "less_number x Infinity = True"
| "less_number x y = (magnitude x < magnitude y)"

record PaginationMeta =
  page :: number
  limit :: number
  total :: number
  totalPages :: number
  hasNext :: bool
  hasPrev :: bool

definition createPaginationMeta :: "number \<Rightarrow> number \<Rightarrow> number \<Rightarrow> PaginationMeta" where
  "createPaginationMeta page' limit' total' =
     (let totalPages' = Math_ceil (divide_number total' limit')
      in \<lparr> page = page', limit = limit', total = total', totalPages = totalPages',
           hasNext = less_number page' totalPages', hasPrev = less_number (Fin 1) page' \<rparr>)"


section \<open>Reference descriptions used by the properties\<close>

text \<open>
  What one entry of the schema mapping contributes to the aggregate violation list,
  computed from the request as the middleware received it: one object per issue when
  the section fails its schema, nothing otherwise.
\<close>

definition violations_of :: "Request \<Rightarrow> ValidationSource \<times> ZodSchema \<Rightarrow> jsval list" where
  "violations_of req entry =
     (case entry of (source, schema) \<Rightarrow>
        (case schema (req_get req source) of
           Returns v \<Rightarrow> []
         | Throws error \<Rightarrow>
             (case cls error of
                ZodError issues \<Rightarrow>
                  map (\<lambda>err. JObj
                         [(''source'', JStr (source_key source)),
                          (''field'', JStr (join (map path_seg_string (issue_path err)) ''.'')),
                          (''message'', JStr (issue_message err))]) issues
              | _ \<Rightarrow> [])))"

text \<open>
  The value a section holds once its entry has been processed: the parsed value when
  the parse returned and the section can be assigned, the old value otherwise.
\<close>

definition parsed_section :: "Request \<Rightarrow> ValidationSource \<Rightarrow> ZodSchema \<Rightarrow> jsval" where
  "parsed_section req source schema =
     (case schema (req_get req source) of
        Returns v \<Rightarrow> if writable req source then v else req_get req source
      | Throws error \<Rightarrow> req_get req source)"

text \<open>
  The object \<open>errorHandler\<close> hands to \<open>res.json\<close>, as a function of the classification,
  the request id, the clock, the development flag and the error's stack.
\<close>

definition error_envelope ::
  "string \<Rightarrow> ErrorCode \<Rightarrow> string option \<Rightarrow> string \<Rightarrow> jsval \<Rightarrow> bool \<Rightarrow> string option \<Rightarrow> jsval" where
  "error_envelope m ec rid now d dev st =
     JObj ([(''success'', JBool False),
            (''message'', JStr m),
            (''errorCode'', JStr (ErrorCode_value ec)),
            (''requestId'', of_optional rid),
            (''timestamp'', JStr now)]
           @ (if truthy d then [(''errors'', d)] else [])
           @ (if dev \<and> truthy (of_optional st) then [(''stack'', of_optional st)] else []))"


text \<open>
  The shape of the text \<open>toISOString\<close> returns, the ISO 8601 format
  \<open>YYYY-MM-DDTHH:mm:ss.sssZ\<close> or its expanded form with a signed six-digit year:
  \<open>matches\<close> compares a text with a pattern in which \<open>#\<close> stands for a decimal digit.
\<close>

definition is_digit :: "char \<Rightarrow> bool" where
  "is_digit c = (c \<in> set ''0123456789'')"

fun matches :: "string \<Rightarrow> string \<Rightarrow> bool" where
  "matches [] [] = True"
| "matches (p # ps) (c # cs) = ((if p = CHR ''#'' then is_digit c else c = p) \<and> matches ps cs)"
| "matches ps cs = False"

definition iso8601 :: "string \<Rightarrow> bool" where
  "iso8601 s =
     (matches ''####-##-##T##:##:##.###Z'' s \<or>
      matches ''+######-##-##T##:##:##.###Z'' s \<or>
      matches ''-######-##-##T##:##:##.###Z'' s)"


section \<open>Example inputs\<close>

text \<open>
  A \<open>ZodError\<close> over the given issues for the example schemas. Its message and stack
  stand for the texts the schema library computes; neither validator reads them.
\<close>

definition example_ZodError :: "ZodIssue list \<Rightarrow> js_error" where
  "example_ZodError issues =
     \<lparr> cls = ZodError issues, name = ''ZodError'', message = ''Invalid input'',
       code = JUndefined, stack = Some ''ZodError: at parse'' \<rparr>"

text \<open>
  A schema in the manner of \<open>z.object({ k: z.string() })\<close>: it keeps the property \<open>k\<close>
  when that is a string (dropping every other property) and reports one issue at path
  \<open>k\<close> otherwise.
\<close>

definition string_field :: "string \<Rightarrow> ZodSchema" where
  "string_field k data =
     (case obj_get data k of
        JStr s \<Rightarrow> Returns (JObj [(k, JStr s)])
      | _ \<Rightarrow> Throws (example_ZodError [ZodIssue [Key k] ''Required'' ''invalid_type'']))"

text \<open>
  A schema in the manner of \<open>z.object({ items: z.array(z.object({ sku: z.string() })) })\<close>:
  one issue at path \<open>items\<close>, index, \<open>sku\<close> for every element whose \<open>sku\<close> is not a string.
\<close>

fun sku_issues :: "nat \<Rightarrow> jsval list \<Rightarrow> ZodIssue list" where
  "sku_issues i [] = []"
| "sku_issues i (x # xs) =
     (case obj_get x ''sku'' of
        JStr s \<Rightarrow> []
      | _ \<Rightarrow> [ZodIssue [Key ''items'', Index i, Key ''sku''] ''Required'' ''invalid_type''])
     @ sku_issues (Suc i) xs"

definition items_schema :: ZodSchema where
  "items_schema data =
     (case obj_get data ''items'' of
        JArr xs \<Rightarrow>
          if sku_issues 0 xs = [] then Returns data
          else Throws (example_ZodError (sku_issues 0 xs))
      | _ \<Rightarrow> Throws (example_ZodError [ZodIssue [Key ''items''] ''Required'' ''invalid_type'']))"

text \<open>A schema with a refinement that throws an ordinary error.\<close>

definition failing_refinement :: "ZodSchema" where
  "failing_refinement data =
     Throws \<lparr> cls = PlainError, name = ''TypeError'', message = ''lookup failed'',
              code = JUndefined, stack = None \<rparr>"

text \<open>
  A request on Express 4 whose \<open>params\<close> and \<open>body\<close> fail the first schema and whose \<open>query\<close>
  passes it; the same request on Express 5; and a request with an order in its body.
\<close>

definition request0 :: Request where
  "request0 =
     \<lparr> body = JObj [(''email'', JNum 7)],
       query = JObj [(''q'', JStr ''x''), (''debug'', JStr ''1'')],
       params = JObj [(''id'', JNull)],
       headers = JObj [(''user-agent'', JStr ''curl'')],
       writable = (\<lambda>source. True),
       requestId = Some ''req-1'',
       originalUrl = ''/users/0?q=x'',
       path = ''/users/0'',
       req_method = ''POST'',
       ip = Some ''127.0.0.1'' \<rparr>"


definition order_request :: Request where
  "order_request =
     request0 \<lparr> body := JObj [(''items'', JArr [JObj [(''sku'', JStr ''A-1'')],
                                                   JObj [(''qty'', JNum 2)]])] \<rparr>"

text \<open>A reading of the clock: 1 May 2024, 12:00:00.123 UTC.\<close>

definition now0 :: int where
  "now0 = 1714564800123"

text \<open>
  An \<open>AppError\<close> that also carries a recognised \<open>name\<close> and a recognised \<open>code\<close>, as a
  subclass or a driver could set them.
\<close>

definition renamed_AppError :: js_error where
  "renamed_AppError =
     (conflict ''Email already registered'' (JObj [(''email'', JStr ''a@b.c'')]) ''trace'')
       \<lparr> name := ''ValidationError'', code := JNum 11000 \<rparr>"


section \<open>The text of a date\<close>

lemma DaysInYear_bounds: "365 \<le> DaysInYear y" "DaysInYear y \<le> 366"
  by (simp_all add: DaysInYear_def)

lemma year_and_day_range:
  "year_and_day y d = (y', r) \<Longrightarrow> 0 \<le> r \<and> r < DaysInYear y'"
proof (induction y d rule: year_and_day.induct)
  case (1 y d)
  show ?case
  proof (cases "d < 0")
    case True
    with "1.prems" have "year_and_day (y - 1) (d + DaysInYear (y - 1)) = (y', r)"
      by (subst (asm) year_and_day.simps) simp
    with True "1.IH"(1) show ?thesis by blast
  next
    case False
    show ?thesis
    proof (cases "DaysInYear y \<le> d")
      case True
      with False "1.prems" have "year_and_day (y + 1) (d - DaysInYear y) = (y', r)"
        by (subst (asm) year_and_day.simps) simp
      with False True "1.IH"(2) show ?thesis by blast
    next
      case nle: False
      with False "1.prems" have "y' = y" "r = d"
        by (subst (asm) year_and_day.simps, simp)+
      with False nle show ?thesis by simp
    qed
  qed
qed

lemma year_and_day_year:
  "year_and_day y d = (y', r) \<Longrightarrow> 365 * \<bar>y' - y\<bar> \<le> \<bar>d\<bar> + 366"
proof (induction y d arbitrary: rule: year_and_day.induct)
  case (1 y d)
  show ?case
  proof (cases "d < 0")
    case True
    with "1.prems" have eq: "year_and_day (y - 1) (d + DaysInYear (y - 1)) = (y', r)"
      by (subst (asm) year_and_day.simps) simp
    from "1.IH"(1) [OF True eq] have ih: "365 * \<bar>y' - (y - 1)\<bar> \<le> \<bar>d + DaysInYear (y - 1)\<bar> + 366" .
    show ?thesis
    proof (cases "d + DaysInYear (y - 1) < 0")
      case True
      with ih \<open>d < 0\<close> DaysInYear_bounds [of "y - 1"] show ?thesis by (simp add: abs_if split: if_splits)
    next
      case False
      then have "year_and_day (y - 1) (d + DaysInYear (y - 1)) = (y - 1, d + DaysInYear (y - 1))"
        using \<open>d < 0\<close> by (subst year_and_day.simps) simp
      with eq have "y' = y - 1" by simp
      with \<open>d < 0\<close> show ?thesis by simp
    qed
  next
    case False
    show ?thesis
    proof (cases "DaysInYear y \<le> d")
      case True
      with False "1.prems" have eq: "year_and_day (y + 1) (d - DaysInYear y) = (y', r)"
        by (subst (asm) year_and_day.simps) simp
      from "1.IH"(2) [OF False True eq] have ih: "365 * \<bar>y' - (y + 1)\<bar> \<le> \<bar>d - DaysInYear y\<bar> + 366" .
      with True False DaysInYear_bounds [of y] show ?thesis by (simp add: abs_if split: if_splits)
    next
      case nle: False
      with False "1.prems" have "y' = y"
        by (subst (asm) year_and_day.simps) simp
      then show ?thesis by simp
    qed
  qed
qed

lemma digit_nth: "k < 10 \<Longrightarrow> is_digit (''0123456789'' ! k)"
proof -
  assume "k < 10"
  then have "k \<in> {0, 1, 2, 3, 4, 5, 6, 7, 8, 9}" by auto
  then show ?thesis by (auto simp: is_digit_def)
qed

lemma String_of_nat_digits: "\<forall>c \<in> set (String_of_nat n). is_digit c"
proof (induction n rule: String_of_nat.induct)
  case (1 n)
  show ?case
  proof (cases "n < 10")
    case True
    then show ?thesis by (subst String_of_nat.simps) (simp add: digit_nth)
  next
    case False
    with "1.IH" have "\<forall>c \<in> set (String_of_nat (n div 10)). is_digit c" by simp
    moreover have "is_digit (''0123456789'' ! (n mod 10))" by (rule digit_nth) simp
    ultimately show ?thesis using False by (subst String_of_nat.simps) simp
  qed
qed

lemma String_of_nat_length: "n < 10 ^ w \<Longrightarrow> 0 < w \<Longrightarrow> length (String_of_nat n) \<le> w"
proof (induction n arbitrary: w rule: String_of_nat.induct)
  case (1 n)
  show ?case
  proof (cases "n < 10")
    case True
    with "1.prems" show ?thesis by (subst String_of_nat.simps) simp
  next
    case False
    obtain v where w: "w = Suc v" using "1.prems"(2) by (cases w) auto
    with False "1.prems"(1) have "0 < v" by (cases v) auto
    from "1.prems"(1) w have "n div 10 < 10 ^ v" by (simp add: less_mult_imp_div_less mult.commute)
    from "1.IH" [OF False this \<open>0 < v\<close>] False w show ?thesis
      by (subst String_of_nat.simps) simp
  qed
qed

lemma matches_all_digits:
  "length s = k \<Longrightarrow> \<forall>c \<in> set s. is_digit c \<Longrightarrow> matches (replicate k CHR ''#'') s"
proof (induction s arbitrary: k)
  case Nil
  then show ?case by simp
next
  case (Cons c cs)
  then obtain j where "k = Suc j" "length cs = j" by (cases k) auto
  with Cons show ?case by simp
qed

lemma is_digit_zero: "is_digit CHR ''0''"
  by (simp add: is_digit_def)

lemma padStart_digits:
  assumes "n < 10 ^ w" "0 < w"
  shows "matches (replicate w CHR ''#'') (padStart w (String_of_nat n))"
proof -
  have len: "length (padStart w (String_of_nat n)) = w"
    using String_of_nat_length [OF assms] by (simp add: padStart_def)
  have dig: "\<forall>c \<in> set (padStart w (String_of_nat n)). is_digit c"
  proof
    fix c assume "c \<in> set (padStart w (String_of_nat n))"
    then have "c = CHR ''0'' \<or> c \<in> set (String_of_nat n)"
      unfolding padStart_def by (auto simp del: String_of_nat.simps)
    then show "is_digit c"
      using String_of_nat_digits [of n] is_digit_zero by blast
  qed
  from matches_all_digits [OF len dig] show ?thesis .
qed

lemma matches_append:
  "matches p s \<Longrightarrow> matches q r \<Longrightarrow> matches (p @ q) (s @ r)"
  by (induction p s rule: matches.induct) auto

lemma MonthFromDay_bounds:
  "0 \<le> MonthFromDay d leap" "MonthFromDay d leap \<le> 11"
  by (simp_all add: MonthFromDay_def)

lemma DateFromDay_bounds:
  assumes "0 \<le> d" "d < 365 + leap" "leap = 0 \<or> leap = 1"
  shows "1 \<le> DateFromDay d leap \<and> DateFromDay d leap \<le> 31"
  using assms unfolding DateFromDay_def by auto

lemma two_digits: "0 \<le> k \<Longrightarrow> k < 100 \<Longrightarrow> matches ''##'' (padStart 2 (String_of_nat (nat k)))"
  using padStart_digits [of "nat k" 2] by (simp add: numeral_2_eq_2)

lemma three_digits: "0 \<le> k \<Longrightarrow> k < 1000 \<Longrightarrow> matches ''###'' (padStart 3 (String_of_nat (nat k)))"
  using padStart_digits [of "nat k" 3] by (simp add: numeral_3_eq_3)

lemma year_string_matches:
  assumes "\<bar>y\<bar> \<le> 999999"
  shows "matches ''####'' (year_string y) \<or> matches ''+######'' (year_string y)
       \<or> matches ''-######'' (year_string y)"
proof (cases "0 \<le> y \<and> y \<le> 9999")
  case True
  then have "nat y < 10000" by linarith
  then have "nat y < 10 ^ 4" by simp
  from padStart_digits [OF this] True show ?thesis
    by (simp add: year_string_def eval_nat_numeral)
next
  case False
  from assms have "nat \<bar>y\<bar> < 1000000" by linarith
  then have "nat \<bar>y\<bar> < 10 ^ 6" by simp
  from padStart_digits [OF this]
  have m: "matches ''######'' (padStart 6 (String_of_nat (nat \<bar>y\<bar>)))"
    by (simp add: eval_nat_numeral)
  show ?thesis
  proof (cases "y < 0")
    case True
    with False m show ?thesis by (simp add: year_string_def is_digit_def)
  next
    case nneg: False
    with False m show ?thesis by (simp add: year_string_def is_digit_def)
  qed
qed

lemma iso_tail:
  assumes "matches ''##'' mo" "matches ''##'' da" "matches ''##'' h" "matches ''##'' mi"
    "matches ''##'' se" "matches ''###'' ms"
  shows "matches ''-##-##T##:##:##.###Z''
           (''-'' @ mo @ ''-'' @ da @ ''T'' @ h @ '':'' @ mi @ '':'' @ se @ ''.'' @ ms @ ''Z'')"
proof -
  have lit: "matches ''-'' ''-''" "matches ''T'' ''T''" "matches '':'' '':''"
    "matches ''.'' ''.''" "matches ''Z'' ''Z''"
    by simp_all
  have "matches (''-'' @ ''##'' @ ''-'' @ ''##'' @ ''T'' @ ''##'' @ '':'' @ ''##'' @ '':'' @ ''##''
                  @ ''.'' @ ''###'' @ ''Z'')
           (''-'' @ mo @ ''-'' @ da @ ''T'' @ h @ '':'' @ mi @ '':'' @ se @ ''.'' @ ms @ ''Z'')"
    by (intro matches_append assms lit)
  then show ?thesis by simp
qed

lemma toISOString_iso8601:
  assumes "\<bar>t\<bar> \<le> 8640000000000000"
  shows "iso8601 (toISOString t)"
proof -
  obtain y d where yd: "year_and_day 1970 (Day t) = (y, d)"
    by (cases "year_and_day 1970 (Day t)")
  define leap :: int where "leap = (if DaysInYear y = 366 then 1 else 0)"
  from year_and_day_range [OF yd] have d: "0 \<le> d" "d < DaysInYear y" by simp_all
  have "DaysInYear y = 365 \<or> DaysInYear y = 366" by (simp add: DaysInYear_def)
  with d have dl: "d < 365 + leap" "leap = 0 \<or> leap = 1" by (auto simp: leap_def)
  from assms have "\<bar>Day t\<bar> \<le> 100000000" unfolding Day_def msPerDay_def by linarith
  with year_and_day_year [OF yd] have y: "\<bar>y\<bar> \<le> 999999"
    by (simp add: abs_if split: if_splits)
  have mo: "matches ''##'' (padStart 2 (String_of_nat (nat (MonthFromDay d leap + 1))))"
    using MonthFromDay_bounds [of d leap] by (intro two_digits) linarith+
  have da: "matches ''##'' (padStart 2 (String_of_nat (nat (DateFromDay d leap))))"
    using DateFromDay_bounds [OF d(1) dl] by (intro two_digits) linarith+
  have h: "matches ''##'' (padStart 2 (String_of_nat (nat (t div 3600000 mod 24))))"
    by (intro two_digits) simp_all
  have mi: "matches ''##'' (padStart 2 (String_of_nat (nat (t div 60000 mod 60))))"
    by (intro two_digits) simp_all
  have se: "matches ''##'' (padStart 2 (String_of_nat (nat (t div 1000 mod 60))))"
    by (intro two_digits) simp_all
  have ms: "matches ''###'' (padStart 3 (String_of_nat (nat (t mod 1000))))"
    by (intro three_digits) simp_all
  note tail = iso_tail [OF mo da h mi se ms]
  have eq: "toISOString t = year_string y @
      (''-'' @ padStart 2 (String_of_nat (nat (MonthFromDay d leap + 1))) @ ''-'' @
       padStart 2 (String_of_nat (nat (DateFromDay d leap))) @ ''T'' @
       padStart 2 (String_of_nat (nat (t div 3600000 mod 24))) @ '':'' @
       padStart 2 (String_of_nat (nat (t div 60000 mod 60))) @ '':'' @
       padStart 2 (String_of_nat (nat (t div 1000 mod 60))) @ ''.'' @
       padStart 3 (String_of_nat (nat (t mod 1000))) @ ''Z'')"
    by (simp add: toISOString_def yd leap_def Let_def)
  from year_string_matches [OF y] show ?thesis
  proof (elim disjE)
    assume "matches ''####'' (year_string y)"
    from matches_append [OF this tail] show ?thesis by (simp add: iso8601_def eq)
  next
    assume "matches ''+######'' (year_string y)"
    from matches_append [OF this tail] show ?thesis by (simp add: iso8601_def eq)
  next
    assume "matches ''-######'' (year_string y)"
    from matches_append [OF this tail] show ?thesis by (simp add: iso8601_def eq)
  qed
qed

lemma toISOString_now0: "toISOString now0 = ''2024-05-01T12:00:00.123Z''"
  unfolding now0_def by code_simp


section \<open>Properties of the pagination metadata\<close>

lemma bitlen_bounds: "0 < n \<Longrightarrow> 2 ^ (bitlen n - 1) \<le> n \<and> n < 2 ^ bitlen n"
proof (induction n rule: bitlen.induct)
  case (1 n)
  show ?case
  proof (cases "n div 2 = 0")
    case True
    with "1.prems" have "n = 1" by (simp add: div_eq_0_iff) 
    then show ?thesis by (simp add: bitlen.simps)
  next
    case False
    then have pos: "0 < n div 2" by simp
    from "1.IH" [OF _ pos] "1.prems"
    have ih: "2 ^ (bitlen (n div 2) - 1) \<le> n div 2" "n div 2 < 2 ^ bitlen (n div 2)" by simp_all
    have b: "bitlen n = Suc (bitlen (n div 2))" using "1.prems" by (subst bitlen.simps) simp
    have bp: "0 < bitlen (n div 2)" using pos by (subst bitlen.simps) simp
    then obtain k where k: "bitlen (n div 2) = Suc k" by (cases "bitlen (n div 2)") auto
    from ih k have "2 * 2 ^ k \<le> 2 * (n div 2)" by simp
    also have "\<dots> \<le> n" by simp
    finally have lo: "2 ^ (bitlen n - 1) \<le> n" using b k by simp
    from ih(2) have "n div 2 + 1 \<le> 2 ^ bitlen (n div 2)" by simp
    then have "2 * (n div 2) + 2 \<le> 2 * 2 ^ bitlen (n div 2)" by simp
    moreover have "n < 2 * (n div 2) + 2" by presburger
    ultimately have "n < 2 ^ bitlen n" using b by simp
    with lo show ?thesis by simp
  qed
qed

lemma bitlen_pos: "0 < n \<Longrightarrow> 0 < bitlen n"
  by (subst bitlen.simps) simp

lemma binade_spec:
  assumes "0 < q"
  shows "power_int 2 (binade q) \<le> q \<and> q < power_int 2 (binade q + 1)"
proof -
  obtain a b where ab: "quotient_of q = (a, b)" by (cases "quotient_of q")
  then have b: "0 < b" and q: "q = rat_of_int a / rat_of_int b"
    by (simp_all add: quotient_of_denom_pos quotient_of_div)
  with assms have a: "0 < a" by (simp add: zero_less_divide_iff)
  define la lb where "la = bitlen (nat a)" and "lb = bitlen (nat b)"
  from a b have lapos: "0 < la" and lbpos: "0 < lb" by (simp_all add: la_def lb_def bitlen_pos)
  from bitlen_bounds [of "nat a"] a
  have an: "2 ^ (la - 1) \<le> nat a" "nat a < 2 ^ la" by (simp_all add: la_def)
  from bitlen_bounds [of "nat b"] b
  have bn: "2 ^ (lb - 1) \<le> nat b" "nat b < 2 ^ lb" by (simp_all add: lb_def)
  have ar: "(2::rat) ^ (la - 1) \<le> rat_of_int a" "rat_of_int a < 2 ^ la"
  proof -
    from an(1) have "rat_of_nat (2 ^ (la - 1)) \<le> rat_of_nat (nat a)" by (simp only: of_nat_le_iff)
    then show "(2::rat) ^ (la - 1) \<le> rat_of_int a" using a by simp
    from an(2) have "rat_of_nat (nat a) < rat_of_nat (2 ^ la)" by (simp only: of_nat_less_iff)
    then show "rat_of_int a < 2 ^ la" using a by simp
  qed
  have br: "(2::rat) ^ (lb - 1) \<le> rat_of_int b" "rat_of_int b < 2 ^ lb"
  proof -
    from bn(1) have "rat_of_nat (2 ^ (lb - 1)) \<le> rat_of_nat (nat b)" by (simp only: of_nat_le_iff)
    then show "(2::rat) ^ (lb - 1) \<le> rat_of_int b" using b by simp
    from bn(2) have "rat_of_nat (nat b) < rat_of_nat (2 ^ lb)" by (simp only: of_nat_less_iff)
    then show "rat_of_int b < 2 ^ lb" using b by simp
  qed
  define d where "d = int la - int lb"
  have bpos: "0 < rat_of_int b" using b by simp
  have up: "q < power_int 2 (d + 1)"
  proof -
    have "d + 1 = int la - int (lb - 1)"
      using lbpos unfolding d_def by linarith
    then have "power_int (2::rat) (d + 1) = power_int 2 (int la - int (lb - 1))"
      by (simp only:)
    also have "\<dots> = 2 ^ la / 2 ^ (lb - 1)"
      by (simp add: power_int_diff)
    finally have e: "power_int (2::rat) (d + 1) = 2 ^ la / 2 ^ (lb - 1)" .
    have "q < 2 ^ la / rat_of_int b" unfolding q using ar(2) bpos by (simp add: divide_strict_right_mono)
    also have "\<dots> \<le> 2 ^ la / 2 ^ (lb - 1)" using br(1) by (simp add: frac_le)
    finally show ?thesis using e by simp
  qed
  have lo: "power_int 2 (d - 1) < q"
  proof -
    have "d - 1 = int (la - 1) - int lb"
      using lapos unfolding d_def by linarith
    then have "power_int (2::rat) (d - 1) = power_int 2 (int (la - 1) - int lb)"
      by (simp only:)
    also have "\<dots> = 2 ^ (la - 1) / 2 ^ lb"
      by (simp add: power_int_diff)
    finally have e: "power_int (2::rat) (d - 1) = 2 ^ (la - 1) / 2 ^ lb" .
    have "(2::rat) ^ (la - 1) / 2 ^ lb < 2 ^ (la - 1) / rat_of_int b"
      using br(2) bpos by (simp add: frac_less2)
    also have "\<dots> \<le> q" unfolding q using ar(1) bpos by (simp add: divide_right_mono)
    finally show ?thesis using e by simp
  qed
  have bin: "binade q = (if power_int 2 d \<le> q then d else d - 1)"
    by (simp add: binade_def ab d_def la_def lb_def Let_def)
  show ?thesis
  proof (cases "power_int 2 d \<le> q")
    case True
    with bin up show ?thesis by simp
  next
    case False
    with bin lo show ?thesis by simp
  qed
qed

lemma binade_unique:
  assumes "0 < q" "power_int 2 e \<le> q" "q < power_int 2 (e + 1)"
  shows "binade q = e"
proof -
  from binade_spec [OF assms(1)]
  have s: "power_int 2 (binade q) \<le> q" "q < power_int 2 (binade q + 1)" by simp_all
  have lt1: "power_int (2::rat) e < power_int 2 (binade q + 1)" using assms(2) s(2) by linarith
  have 1: "e < binade q + 1"
  proof (rule ccontr)
    assume "\<not> e < binade q + 1"
    then have "binade q + 1 \<le> e" by simp
    then have "power_int (2::rat) (binade q + 1) \<le> power_int 2 e"
      by (rule power_int_increasing) simp
    with lt1 show False by simp
  qed
  have lt2: "power_int (2::rat) (binade q) < power_int 2 (e + 1)" using assms(3) s(1) by linarith
  have 2: "binade q < e + 1"
  proof (rule ccontr)
    assume "\<not> binade q < e + 1"
    then have "e + 1 \<le> binade q" by simp
    then have "power_int (2::rat) (e + 1) \<le> power_int 2 (binade q)"
      by (rule power_int_increasing) simp
    with lt2 show False by simp
  qed
  from 1 2 show ?thesis by linarith
qed

lemma round_half_even_floor: "\<lfloor>m\<rfloor> \<le> round_half_even m" "round_half_even m \<le> \<lfloor>m\<rfloor> + 1"
  by (simp_all add: round_half_even_def Let_def)

lemma round_half_even_ge:
  assumes "of_int K \<le> m"
  shows "K \<le> round_half_even m"
proof -
  from assms have "K \<le> \<lfloor>m\<rfloor>" by (simp add: le_floor_iff)
  with round_half_even_floor(1) [of m] show ?thesis by linarith
qed

lemma round_half_even_le:
  assumes "m \<le> of_int K"
  shows "round_half_even m \<le> K"
proof (cases "m = of_int \<lfloor>m\<rfloor>")
  case True
  then have "round_half_even m = \<lfloor>m\<rfloor>" by (simp add: round_half_even_def Let_def)
  moreover from assms have "\<lfloor>m\<rfloor> \<le> K" by (simp add: floor_le_iff)
  ultimately show ?thesis by simp
next
  case False
  then have "of_int \<lfloor>m\<rfloor> < m" using of_int_floor_le [of m] by linarith
  with assms have "rat_of_int \<lfloor>m\<rfloor> < of_int K" by linarith
  then have "\<lfloor>m\<rfloor> < K" by (simp only: of_int_less_iff)
  with round_half_even_floor(2) [of m] show ?thesis by linarith
qed

lemma round_half_even_gt:
  assumes "of_int K + 1 / 2 < m"
  shows "K + 1 \<le> round_half_even m"
proof -
  from assms have "of_int K \<le> m" by linarith
  then have fl: "K \<le> \<lfloor>m\<rfloor>" by (simp add: le_floor_iff)
  show ?thesis
  proof (cases "\<lfloor>m\<rfloor> = K")
    case True
    with assms have "1 / 2 < m - of_int \<lfloor>m\<rfloor>" by simp
    then have "round_half_even m = \<lfloor>m\<rfloor> + 1" by (simp add: round_half_even_def Let_def)
    with True show ?thesis by simp
  next
    case False
    with fl round_half_even_floor(1) [of m] show ?thesis by linarith
  qed
qed

lemma round_half_even_lt:
  assumes "m < of_int K - 1 / 2"
  shows "round_half_even m \<le> K - 1"
proof -
  from assms have "m < of_int K" by linarith
  then have fl: "\<lfloor>m\<rfloor> < K" by (simp add: floor_less_iff)
  show ?thesis
  proof (cases "\<lfloor>m\<rfloor> = K - 1")
    case True
    with assms have "m - of_int \<lfloor>m\<rfloor> < 1 / 2" by simp
    then have "round_half_even m = \<lfloor>m\<rfloor>" by (simp add: round_half_even_def Let_def)
    with True show ?thesis by simp
  next
    case False
    with fl round_half_even_floor(2) [of m] show ?thesis by linarith
  qed
qed

lemma round_magnitude_grid:
  assumes "0 < x" "x < 2 ^ 53" "1 / 2 ^ 53 < x"
  shows "\<exists>j. round_magnitude x = of_int (round_half_even (x * 2 ^ j)) / 2 ^ j
           \<and> (2::rat) ^ 52 \<le> x * 2 ^ j"
proof -
  define e where "e = binade x"
  from binade_spec [OF assms(1)]
  have sp: "power_int 2 e \<le> x" "x < power_int 2 (e + 1)" by (simp_all add: e_def)
  have hi: "e \<le> 52"
  proof (rule ccontr)
    assume "\<not> e \<le> 52"
    then have "53 \<le> e" by simp
    then have "power_int (2::rat) 53 \<le> power_int 2 e" by (rule power_int_increasing) simp
    with sp(1) assms(2) show False by simp
  qed
  have lo: "- 53 \<le> e"
  proof (rule ccontr)
    assume "\<not> - 53 \<le> e"
    then have "e + 1 \<le> - 53" by simp
    then have "power_int (2::rat) (e + 1) \<le> power_int 2 (- 53)" by (rule power_int_increasing) simp
    also have "power_int (2::rat) (- 53) = 1 / 2 ^ 53" by (simp add: power_int_minus field_simps)
    finally show False using sp(2) assms(3) by linarith
  qed
  define j where "j = nat (52 - e)"
  have je: "int j = 52 - e" using hi by (simp add: j_def)
  have ulp: "power_int (2::rat) (e - 52) = 1 / 2 ^ j"
  proof -
    have "e - 52 = - int j" using je by linarith
    then have "power_int (2::rat) (e - 52) = power_int 2 (- int j)" by (simp only:)
    then show ?thesis by (simp add: power_int_minus field_simps)
  qed
  have "max e (- 1022) = e" using lo by simp
  then have rm: "round_magnitude x = of_int (round_half_even (x * 2 ^ j)) / 2 ^ j"
    by (simp add: round_magnitude_def e_def [symmetric] ulp Let_def)
  have "power_int (2::rat) e * 2 ^ j = power_int 2 e * power_int 2 (int j)" by simp
  also have "\<dots> = power_int 2 (e + int j)" by (simp add: power_int_add)
  also have "e + int j = 52" using je by linarith
  finally have "power_int (2::rat) e * 2 ^ j = 2 ^ 52" by simp
  moreover have "power_int 2 e * 2 ^ j \<le> x * 2 ^ j" using sp(1) by (simp add: mult_right_mono)
  ultimately have "(2::rat) ^ 52 \<le> x * 2 ^ j" by simp
  with rm show ?thesis by blast
qed

lemma round_magnitude_safe:
  fixes t l k :: int
  assumes "0 < t" "t < 2 ^ 53" "0 < l" "l < 2 ^ 53"
  defines "x \<equiv> rat_of_int t / rat_of_int l"
  shows "of_int k \<le> x \<Longrightarrow> of_int k \<le> round_magnitude x"
    and "x \<le> of_int k \<Longrightarrow> round_magnitude x \<le> of_int k"
    and "of_int k < x \<Longrightarrow> of_int k < round_magnitude x"
    and "x < of_int k \<Longrightarrow> round_magnitude x < of_int k"
proof -
  have lpos: "0 < rat_of_int l" and tpos: "0 < rat_of_int t" using assms by simp_all
  have l1: "1 \<le> rat_of_int l" using assms(3) by simp
  have t1: "1 \<le> rat_of_int t" using assms(1) by simp
  have tl: "rat_of_int t < 2 ^ 53" "rat_of_int l < 2 ^ 53"
  proof -
    from assms(2) have "rat_of_int t < rat_of_int (2 ^ 53)" by (simp only: of_int_less_iff)
    then show "rat_of_int t < 2 ^ 53" by simp
    from assms(4) have "rat_of_int l < rat_of_int (2 ^ 53)" by (simp only: of_int_less_iff)
    then show "rat_of_int l < 2 ^ 53" by simp
  qed
  have xpos: "0 < x" using lpos tpos by (simp add: x_def)
  have "x \<le> rat_of_int t" unfolding x_def using l1 tpos by (simp add: divide_le_eq)
  then have xhi: "x < 2 ^ 53" using tl(1) by linarith
  have "1 / rat_of_int l \<le> x" unfolding x_def using t1 lpos by (simp add: divide_right_mono)
  moreover have "1 / 2 ^ 53 < 1 / rat_of_int l" using tl(2) lpos by (simp add: frac_less2)
  ultimately have xlo: "1 / 2 ^ 53 < x" by linarith
  from round_magnitude_grid [OF xpos xhi xlo]
  obtain j where rm: "round_magnitude x = of_int (round_half_even (x * 2 ^ j)) / 2 ^ j"
    and big: "(2::rat) ^ 52 \<le> x * 2 ^ j"
    by blast
  define J :: rat where "J = 2 ^ j"
  have Jpos: "0 < J" by (simp add: J_def)
  define r where "r = round_half_even (x * J)"
  have v: "round_magnitude x = of_int r / J" using rm by (simp add: r_def J_def)
  have xl: "x * rat_of_int l = rat_of_int t" using lpos by (simp add: x_def)
  have "2 ^ 52 * rat_of_int l \<le> x * J * rat_of_int l"
    using big lpos by (simp add: J_def mult_right_mono)
  also have "\<dots> = rat_of_int t * J" using xl by (simp add: mult.assoc mult.commute)
  also have "\<dots> < 2 ^ 53 * J" using tl(1) Jpos by (simp add: mult_strict_right_mono)
  finally have lJ: "rat_of_int l < 2 * J" by simp
  have half: "1 / 2 < J / rat_of_int l" using lJ lpos by (simp add: field_simps)
  have K: "rat_of_int (k * 2 ^ j) = of_int k * J" by (simp add: J_def)
  {
    assume "of_int k \<le> x"
    then have "of_int k * J \<le> x * J" using Jpos by (simp add: mult_right_mono)
    then have "rat_of_int (k * 2 ^ j) \<le> x * J" by (simp only: K)
    then have "k * 2 ^ j \<le> r" unfolding r_def by (rule round_half_even_ge)
    then have "rat_of_int (k * 2 ^ j) \<le> of_int r" by (simp only: of_int_le_iff)
    then have "of_int k * J \<le> of_int r" by (simp only: K)
    then show "of_int k \<le> round_magnitude x" using Jpos by (simp add: v pos_le_divide_eq)
  }
  {
    assume "x \<le> of_int k"
    then have "x * J \<le> of_int k * J" using Jpos by (simp add: mult_right_mono)
    then have "x * J \<le> rat_of_int (k * 2 ^ j)" by (simp only: K)
    then have "r \<le> k * 2 ^ j" unfolding r_def by (rule round_half_even_le)
    then have "of_int r \<le> rat_of_int (k * 2 ^ j)" by (simp only: of_int_le_iff)
    then have "of_int r \<le> of_int k * J" by (simp only: K)
    then show "round_magnitude x \<le> of_int k" using Jpos by (simp add: v pos_divide_le_eq)
  }
  {
    assume "of_int k < x"
    then have "rat_of_int k * rat_of_int l < rat_of_int t" using lpos by (simp add: x_def pos_less_divide_eq)
    then have "rat_of_int (k * l) < rat_of_int t" by simp
    then have "k * l < t" by (simp only: of_int_less_iff)
    then have "k * l + 1 \<le> t" by simp
    then have "rat_of_int (k * l + 1) \<le> rat_of_int t" by (simp only: of_int_le_iff)
    then have "rat_of_int k * rat_of_int l + 1 \<le> rat_of_int t" by simp
    then have "(rat_of_int k * rat_of_int l + 1) / rat_of_int l \<le> x"
      unfolding x_def using lpos by (simp only: divide_right_mono less_imp_le)
    moreover have "(rat_of_int k * rat_of_int l + 1) / rat_of_int l = rat_of_int k + 1 / rat_of_int l"
      using lpos by (simp add: add_divide_distrib)
    ultimately have "rat_of_int k + 1 / rat_of_int l \<le> x" by simp
    then have "(rat_of_int k + 1 / rat_of_int l) * J \<le> x * J" using Jpos by (simp add: mult_right_mono)
    then have "of_int k * J + J / rat_of_int l \<le> x * J" by (simp add: algebra_simps)
    with half have "of_int k * J + 1 / 2 < x * J" by linarith
    then have "rat_of_int (k * 2 ^ j) + 1 / 2 < x * J" by (simp only: K)
    then have "k * 2 ^ j + 1 \<le> r" unfolding r_def by (rule round_half_even_gt)
    then have "rat_of_int (k * 2 ^ j + 1) \<le> of_int r" by (simp only: of_int_le_iff)
    then have "rat_of_int (k * 2 ^ j) + 1 \<le> of_int r" by (simp only: of_int_add of_int_1)
    then have "of_int k * J + 1 \<le> of_int r" by (simp only: K)
    then have "of_int k * J < of_int r" by linarith
    then show "of_int k < round_magnitude x" using Jpos by (simp add: v pos_less_divide_eq)
  }
  {
    assume "x < of_int k"
    then have "rat_of_int t < rat_of_int k * rat_of_int l" using lpos by (simp add: x_def pos_divide_less_eq)
    then have "rat_of_int t < rat_of_int (k * l)" by simp
    then have "t < k * l" by (simp only: of_int_less_iff)
    then have "t + 1 \<le> k * l" by simp
    then have "rat_of_int (t + 1) \<le> rat_of_int (k * l)" by (simp only: of_int_le_iff)
    then have "rat_of_int t + 1 \<le> rat_of_int k * rat_of_int l" by simp
    then have "rat_of_int t \<le> rat_of_int k * rat_of_int l - 1" by linarith
    then have "x \<le> (rat_of_int k * rat_of_int l - 1) / rat_of_int l"
      unfolding x_def using lpos by (simp only: divide_right_mono less_imp_le)
    moreover have "(rat_of_int k * rat_of_int l - 1) / rat_of_int l = rat_of_int k - 1 / rat_of_int l"
      using lpos by (simp add: diff_divide_distrib)
    ultimately have "x \<le> rat_of_int k - 1 / rat_of_int l" by simp
    then have "x * J \<le> (rat_of_int k - 1 / rat_of_int l) * J" using Jpos by (simp add: mult_right_mono)
    then have "x * J \<le> of_int k * J - J / rat_of_int l" by (simp add: algebra_simps)
    with half have "x * J < of_int k * J - 1 / 2" by linarith
    then have "x * J < rat_of_int (k * 2 ^ j) - 1 / 2" by (simp only: K)
    then have "r \<le> k * 2 ^ j - 1" unfolding r_def by (rule round_half_even_lt)
    then have "of_int r \<le> rat_of_int (k * 2 ^ j - 1)" by (simp only: of_int_le_iff)
    then have "of_int r \<le> rat_of_int (k * 2 ^ j) - 1" by (simp only: of_int_diff of_int_1)
    then have "of_int r \<le> of_int k * J - 1" by (simp only: K)
    then have "of_int r < of_int k * J" by linarith
    then show "round_magnitude x < of_int k" using Jpos by (simp add: v pos_divide_less_eq)
  }
qed

lemma divide_number_safe_pos:
  fixes t l :: int
  assumes "0 < t" "t < 2 ^ 53" "0 < l" "l < 2 ^ 53"
  shows "\<exists>v. divide_number (Fin (of_int t)) (Fin (of_int l)) = Fin v \<and> 0 < v
           \<and> \<lceil>v\<rceil> = \<lceil>rat_of_int t / rat_of_int l\<rceil>
           \<and> \<lfloor>v\<rfloor> = \<lfloor>rat_of_int t / rat_of_int l\<rfloor>"
proof -
  define x where "x = rat_of_int t / rat_of_int l"
  define v where "v = round_magnitude x"
  note safe = round_magnitude_safe [OF assms, folded x_def, folded v_def]
  have xpos: "0 < x" using assms by (simp add: x_def)
  from safe(3) [of 0] xpos have vpos: "0 < v" by simp
  have "x \<le> rat_of_int t" unfolding x_def using assms(1,3) by (simp add: divide_le_eq)
  also have "rat_of_int t \<le> rat_of_int (2 ^ 53)" using assms(2) by (simp only: of_int_le_iff less_imp_le)
  finally have "v \<le> rat_of_int (2 ^ 53)" by (rule safe(2))
  also have "rat_of_int (2 ^ 53) < power_int 2 1024" by simp
  finally have small: "\<not> power_int 2 1024 \<le> v" by simp
  have "round_double x = Fin v"
    using xpos vpos small by (simp add: round_double_def v_def Let_def)
  moreover have "divide_number (Fin (of_int t)) (Fin (of_int l)) = round_double x"
    using assms(1,3) by (simp add: divide_number_def x_def)
  ultimately have d: "divide_number (Fin (of_int t)) (Fin (of_int l)) = Fin v" by simp
  have c: "\<lceil>v\<rceil> = \<lceil>x\<rceil>"
  proof (rule ceiling_unique)
    have "rat_of_int (\<lceil>x\<rceil> - 1) < x" by simp linarith
    then have "rat_of_int (\<lceil>x\<rceil> - 1) < v" by (rule safe(3))
    then show "rat_of_int \<lceil>x\<rceil> - 1 < v" by simp
    have "x \<le> rat_of_int \<lceil>x\<rceil>" by simp
    then show "v \<le> rat_of_int \<lceil>x\<rceil>" by (rule safe(2))
  qed
  have f: "\<lfloor>v\<rfloor> = \<lfloor>x\<rfloor>"
  proof (rule floor_unique)
    have "rat_of_int \<lfloor>x\<rfloor> \<le> x" by simp
    then show "rat_of_int \<lfloor>x\<rfloor> \<le> v" by (rule safe(1))
    have "x < rat_of_int (\<lfloor>x\<rfloor> + 1)" by simp linarith
    then have "v < rat_of_int (\<lfloor>x\<rfloor> + 1)" by (rule safe(4))
    then show "v < rat_of_int \<lfloor>x\<rfloor> + 1" by simp
  qed
  from d vpos c f show ?thesis unfolding x_def by blast
qed

lemma Math_ceil_divide_safe:
  fixes t l :: int
  assumes "\<bar>t\<bar> < 2 ^ 53" "0 < l" "l < 2 ^ 53"
  shows "Math_ceil (divide_number (Fin (of_int t)) (Fin (of_int l))) =
           (if t < 0 \<and> \<lceil>rat_of_int t / rat_of_int l\<rceil> = 0 then NegZero
            else Fin (of_int \<lceil>rat_of_int t / rat_of_int l\<rceil>))"
proof -
  consider "t = 0" | "0 < t" | "t < 0" by linarith
  then show ?thesis
  proof cases
    case 1
    with assms(2) show ?thesis by (simp add: divide_number_def)
  next
    case 2
    with assms have "t < 2 ^ 53" by simp
    from divide_number_safe_pos [OF 2 this assms(2,3)]
    obtain v where "divide_number (Fin (of_int t)) (Fin (of_int l)) = Fin v" "0 < v"
      "\<lceil>v\<rceil> = \<lceil>rat_of_int t / rat_of_int l\<rceil>" by blast
    with 2 show ?thesis by simp
  next
    case 3
    then have p: "0 < - t" by simp
    from assms 3 have "- t < 2 ^ 53" by simp
    from divide_number_safe_pos [OF p this assms(2,3)]
    obtain v where d: "divide_number (Fin (of_int (- t))) (Fin (of_int l)) = Fin v" and vpos: "0 < v"
      and fl: "\<lfloor>v\<rfloor> = \<lfloor>rat_of_int (- t) / rat_of_int l\<rfloor>" by blast
    define x where "x = rat_of_int (- t) / rat_of_int l"
    have "0 < rat_of_int (- t)" using p by (simp only: of_int_0_less_iff)
    moreover have "0 < rat_of_int l" using assms(2) by simp
    ultimately have xpos: "0 < x" unfolding x_def by (rule divide_pos_pos)
    have q: "rat_of_int t / rat_of_int l = - x" by (simp add: x_def)
    from d have rd: "round_double x = Fin v"
      using p assms(2) by (simp add: divide_number_def x_def)
    then have rm: "round_magnitude x = v \<and> \<not> power_int 2 1024 \<le> round_magnitude x"
      using xpos vpos by (auto simp: round_double_def Let_def split: if_splits)
    have "divide_number (Fin (of_int t)) (Fin (of_int l)) = round_double (- x)"
      using 3 assms(2) by (simp add: divide_number_def q)
    also have "\<dots> = Fin (- v)"
      using xpos vpos rm by (simp add: round_double_def Let_def)
    finally have dn: "divide_number (Fin (of_int t)) (Fin (of_int l)) = Fin (- v)" .
    have "\<lceil>- v\<rceil> = - \<lfloor>v\<rfloor>" by (simp add: ceiling_def)
    also have "\<dots> = - \<lfloor>x\<rfloor>" using fl by (simp add: x_def)
    also have "\<dots> = \<lceil>- x\<rceil>" by (simp add: ceiling_def)
    finally have c: "\<lceil>- v\<rceil> = \<lceil>rat_of_int t / rat_of_int l\<rceil>" by (simp only: q)
    have "rat_of_int t / rat_of_int l < 0" using 3 assms(2) by (simp add: divide_neg_pos)
    with dn c vpos 3 show ?thesis by simp
  qed
qed

lemma ceiling_rat_div:
  fixes a b :: int
  shows "\<lceil>rat_of_int a / rat_of_int b\<rceil> = - ((- a) div b)"
proof -
  have "\<lceil>rat_of_int a / rat_of_int b\<rceil> = - \<lfloor>- (rat_of_int a / rat_of_int b)\<rfloor>"
    by (simp only: ceiling_def)
  also have "- (rat_of_int a / rat_of_int b) = rat_of_int (- a) / rat_of_int b"
    by simp
  also have "\<lfloor>rat_of_int (- a) / rat_of_int b\<rfloor> = (- a) div b"
    by (rule floor_divide_of_int_eq)
  finally show ?thesis .
qed

lemma ceiling_bounds:
  fixes l t :: int
  assumes "0 < l"
  shows "t \<le> \<lceil>rat_of_int t / rat_of_int l\<rceil> * l"
    and "(\<lceil>rat_of_int t / rat_of_int l\<rceil> - 1) * l < t"
proof -
  let ?q = "rat_of_int t / rat_of_int l"
  let ?n = "\<lceil>?q\<rceil>"
  have l0: "rat_of_int l > 0" using assms by simp
  have "?q \<le> rat_of_int ?n"
    by (rule le_of_int_ceiling)
  with l0 have "rat_of_int t \<le> rat_of_int ?n * rat_of_int l"
    by (simp only: pos_divide_le_eq)
  then have "rat_of_int t \<le> rat_of_int (?n * l)"
    by (simp only: of_int_mult)
  then show "t \<le> ?n * l"
    by (simp only: of_int_le_iff)
  have "rat_of_int ?n - 1 < ?q"
    using ceiling_correct [of ?q] by blast
  with l0 have "(rat_of_int ?n - 1) * rat_of_int l < rat_of_int t"
    by (simp only: pos_less_divide_eq)
  then have "rat_of_int ((?n - 1) * l) < rat_of_int t"
    by (simp only: of_int_mult of_int_diff of_int_1)
  then show "(?n - 1) * l < t"
    by (simp only: of_int_less_iff)
qed

lemma createPaginationMeta_safe:
  fixes l t :: int and p :: rat
  assumes "0 < l" "l < 2 ^ 53" "\<bar>t\<bar> < 2 ^ 53"
  defines "n \<equiv> \<lceil>rat_of_int t / rat_of_int l\<rceil>"
  shows "createPaginationMeta (Fin p) (Fin (of_int l)) (Fin (of_int t)) =
           \<lparr> page = Fin p, limit = Fin (of_int l), total = Fin (of_int t),
             totalPages = (if t < 0 \<and> n = 0 then NegZero else Fin (of_int n)),
             hasNext = (p < of_int n), hasPrev = (1 < p) \<rparr>"
  using Math_ceil_divide_safe [OF assms(3,1,2)]
  by (simp add: createPaginationMeta_def n_def Let_def)

lemma floor_example: "\<lfloor>(18014398509481996::rat) / 3\<rfloor> = 6004799503160665"
  by (rule floor_unique) simp_all

text \<open>
  C8. (amended) For every page and all integers \<open>limit\<close> and \<open>total\<close> with
  \<open>0 < limit < 2^53\<close> and \<open>|total| < 2^53\<close> (the integers a double holds exactly),
  \<open>createPaginationMeta\<close> returns the page, the limit and the total it was given,
  \<open>totalPages\<close> the ceiling \<open>n\<close> of \<open>total / limit\<close> (the least integer with
  \<open>total \<le> n * limit\<close>; printed as \<open>-0\<close> when the total is negative and above \<open>-limit\<close>),
  \<open>hasNext = (page < totalPages)\<close> and \<open>hasPrev = (page > 1)\<close>. The calls
  \<open>createPaginationMeta(2, 10, 25)\<close> and \<open>createPaginationMeta(1, 10, 5)\<close> give
  \<open>totalPages\<close> 3 and 1, \<open>hasNext\<close> true and false, \<open>hasPrev\<close> true and false.
\<close>

theorem createPaginationMeta_safe_integers:
  fixes l t :: int and p :: rat
  assumes "0 < l" "l < 2 ^ 53" "\<bar>t\<bar> < 2 ^ 53"
  shows "(\<exists>n. createPaginationMeta (Fin p) (Fin (of_int l)) (Fin (of_int t)) =
            \<lparr> page = Fin p, limit = Fin (of_int l), total = Fin (of_int t),
              totalPages = (if t < 0 \<and> n = 0 then NegZero else Fin (of_int n)),
              hasNext = (p < of_int n), hasPrev = (1 < p) \<rparr>
          \<and> n = \<lceil>rat_of_int t / rat_of_int l\<rceil>
          \<and> t \<le> n * l \<and> (n - 1) * l < t)
       \<and> createPaginationMeta (Fin 2) (Fin 10) (Fin 25) =
           \<lparr> page = Fin 2, limit = Fin 10, total = Fin 25, totalPages = Fin 3,
             hasNext = True, hasPrev = True \<rparr>
       \<and> createPaginationMeta (Fin 1) (Fin 10) (Fin 5) =
           \<lparr> page = Fin 1, limit = Fin 10, total = Fin 5, totalPages = Fin 1,
             hasNext = False, hasPrev = False \<rparr>"
proof -
  have general: "\<exists>n. createPaginationMeta (Fin p) (Fin (of_int l)) (Fin (of_int t)) =
            \<lparr> page = Fin p, limit = Fin (of_int l), total = Fin (of_int t),
              totalPages = (if t < 0 \<and> n = 0 then NegZero else Fin (of_int n)),
              hasNext = (p < of_int n), hasPrev = (1 < p) \<rparr>
          \<and> n = \<lceil>rat_of_int t / rat_of_int l\<rceil>
          \<and> t \<le> n * l \<and> (n - 1) * l < t"
    using createPaginationMeta_safe [OF assms] ceiling_bounds [OF assms(1), of t] by blast
  have c1: "\<lceil>rat_of_int 25 / rat_of_int 10\<rceil> = 3" by (simp only: ceiling_rat_div)
  have c2: "\<lceil>rat_of_int 5 / rat_of_int 10\<rceil> = 1" by (simp only: ceiling_rat_div)
  have ex1: "createPaginationMeta (Fin 2) (Fin 10) (Fin 25) =
           \<lparr> page = Fin 2, limit = Fin 10, total = Fin 25, totalPages = Fin 3,
             hasNext = True, hasPrev = True \<rparr>"
    using createPaginationMeta_safe [of 10 25 2] c1 by simp
  have ex2: "createPaginationMeta (Fin 1) (Fin 10) (Fin 5) =
           \<lparr> page = Fin 1, limit = Fin 10, total = Fin 5, totalPages = Fin 1,
             hasNext = False, hasPrev = False \<rparr>"
    using createPaginationMeta_safe [of 10 5 1] c2 by simp
  from general ex1 ex2 show ?thesis by blast
qed

theorem createPaginationMeta_safe_integers_witness:
  "(0::int) < 10 \<and> (10::int) < 2 ^ 53 \<and> \<bar>95::int\<bar> < 2 ^ 53 \<and>
   createPaginationMeta (Fin 7) (Fin 10) (Fin 95) =
     \<lparr> page = Fin 7, limit = Fin 10, total = Fin 95, totalPages = Fin 10,
       hasNext = True, hasPrev = True \<rparr>"
proof -
  have h: "(0::int) < 10" "(10::int) < 2 ^ 53" "\<bar>95::int\<bar> < 2 ^ 53" by simp_all
  from createPaginationMeta_safe_integers [OF h, of 7]
  obtain n where eq: "createPaginationMeta (Fin 7) (Fin (of_int 10)) (Fin (of_int 95)) =
            \<lparr> page = Fin 7, limit = Fin (of_int 10), total = Fin (of_int 95),
              totalPages = (if (95::int) < 0 \<and> n = 0 then NegZero else Fin (of_int n)),
              hasNext = ((7::rat) < of_int n), hasPrev = (1 < (7::rat)) \<rparr>"
    and n: "n = \<lceil>rat_of_int 95 / rat_of_int 10\<rceil>"
    by blast
  from n have "n = 10" by (simp only: ceiling_rat_div)
  with eq h show ?thesis by simp
qed

text \<open>
  The claim as first stated fails beyond \<open>2^53\<close>: the quotient of the doubles
  \<open>2^54 + 12\<close> and 3 is rounded to the nearest double, the integer below the exact
  quotient, so \<open>totalPages\<close> is one less than the ceiling and \<open>totalPages * limit\<close> is
  less than the total.
\<close>

theorem createPaginationMeta_counterexample:
  "createPaginationMeta (Fin 1) (Fin 3) (Fin 18014398509481996) =
     \<lparr> page = Fin 1, limit = Fin 3, total = Fin 18014398509481996,
       totalPages = Fin 6004799503160665, hasNext = True, hasPrev = False \<rparr>
   \<and> \<lceil>(18014398509481996::rat) / 3\<rceil> = 6004799503160666
   \<and> \<not> ((18014398509481996::int) \<le> 6004799503160665 * 3)"
proof -
  let ?q = "(18014398509481996::rat) / 3"
  have b: "binade ?q = 52" by (rule binade_unique) simp_all
  have r: "round_half_even ?q = 6004799503160665"
    by (simp add: round_half_even_def floor_example Let_def)
  have m: "round_magnitude ?q = 6004799503160665"
    by (simp add: round_magnitude_def b r Let_def)
  have d: "round_double ?q = Fin 6004799503160665"
    by (simp add: round_double_def m Let_def)
  have c: "\<lceil>?q\<rceil> = 6004799503160666" by (rule ceiling_unique) simp_all
  have "createPaginationMeta (Fin 1) (Fin 3) (Fin 18014398509481996) =
     \<lparr> page = Fin 1, limit = Fin 3, total = Fin 18014398509481996,
       totalPages = Fin 6004799503160665, hasNext = True, hasPrev = False \<rparr>"
    by (simp add: createPaginationMeta_def divide_number_def d Let_def)
  with c show ?thesis by simp
qed


section \<open>The loop of the multi-source validator\<close>

lemma req_get_req_set: "req_get (req_set req s v) s' = (if s' = s then v else req_get req s')"
  by (cases s; cases s') simp_all

lemma writable_req_set: "writable (req_set req s v) = writable req"
  by (cases s) simp_all

text \<open>The request after the assignment \<open>req[source] = validated\<close> has been attempted.\<close>

lemma loop_Returns:
  "schema (req_get req source) = Returns v \<Longrightarrow>
   validateAll_loop ((source, schema) # rest) req errors =
     validateAll_loop rest (if writable req source then req_set req source v else req) errors"
  by simp

lemma loop_ZodError:
  "schema (req_get req source) = Throws error \<Longrightarrow> cls error = ZodError issues \<Longrightarrow>
   validateAll_loop ((source, schema) # rest) req errors =
     validateAll_loop rest req
       (errors @ map (\<lambda>err. JObj
                   [(''source'', JStr (source_key source)),
                    (''field'', JStr (join (map path_seg_string (issue_path err)) ''.'')),
                    (''message'', JStr (issue_message err))]) issues)"
  by simp

lemma loop_other:
  "schema (req_get req source) = Throws error \<Longrightarrow> \<forall>issues. cls error \<noteq> ZodError issues \<Longrightarrow>
   validateAll_loop ((source, schema) # rest) req errors = validateAll_loop rest req errors"
  by (cases "cls error") simp_all

lemma req_get_assigned:
  "req_get (if writable req s then req_set req s v else req) s' =
     (if s' = s \<and> writable req s then v else req_get req s')"
  by (simp add: req_get_req_set)

lemma writable_assigned:
  "writable (if writable req s then req_set req s v else req) = writable req"
  by (simp add: writable_req_set)

lemma violations_of_assigned:
  "fst entry \<noteq> s \<Longrightarrow>
   violations_of (if writable req s then req_set req s v else req) entry = violations_of req entry"
  by (cases entry) (simp add: violations_of_def req_get_req_set)

lemma parsed_section_assigned:
  "s' \<noteq> s \<Longrightarrow>
   parsed_section (if writable req s then req_set req s v else req) s' schema =
     parsed_section req s' schema"
  by (simp add: parsed_section_def req_get_req_set writable_req_set split: parse_result.splits)

lemma violations_of_Returns:
  "schema (req_get req source) = Returns v \<Longrightarrow> violations_of req (source, schema) = []"
  by (simp add: violations_of_def)

lemma violations_of_ZodError:
  "schema (req_get req source) = Throws error \<Longrightarrow> cls error = ZodError issues \<Longrightarrow>
   violations_of req (source, schema) =
     map (\<lambda>err. JObj
            [(''source'', JStr (source_key source)),
             (''field'', JStr (join (map path_seg_string (issue_path err)) ''.'')),
             (''message'', JStr (issue_message err))]) issues"
  by (simp add: violations_of_def)

lemma violations_of_other:
  "schema (req_get req source) = Throws error \<Longrightarrow> \<forall>issues. cls error \<noteq> ZodError issues \<Longrightarrow>
   violations_of req (source, schema) = []"
  by (cases "cls error") (simp_all add: violations_of_def)

lemma violations_of_source:
  "v \<in> set (violations_of req (source, schema)) \<Longrightarrow>
   obj_get v ''source'' = JStr (source_key source)"
  by (auto simp: violations_of_def split: parse_result.splits error_class.splits)

lemma source_key_inj: "source_key a = source_key b \<Longrightarrow> a = b"
  by (cases a; cases b) simp_all

lemma not_ZodError_cases:
  "(\<forall>issues. cls error \<noteq> ZodError issues) \<or> (\<exists>issues. cls error = ZodError issues)"
  by blast

declare validateAll_loop.simps(2) [simp del]

lemma validateAll_loop_errors:
  "distinct (map fst schemas) \<Longrightarrow>
   snd (validateAll_loop schemas req errors) = errors @ concat (map (violations_of req) schemas)"
proof (induction schemas arbitrary: req errors)
  case Nil
  show ?case by simp
next
  case (Cons entry rest)
  obtain source schema where entry: "entry = (source, schema)" by (cases entry)
  from Cons.prems entry have d: "distinct (map fst rest)" and notin: "source \<notin> fst ` set rest"
    by simp_all
  show ?case
  proof (cases "schema (req_get req source)")
    case (Returns validated)
    let ?r = "if writable req source then req_set req source validated else req"
    have meq: "concat (map (violations_of ?r) rest) = concat (map (violations_of req) rest)"
      using notin by (intro arg_cong [where f = concat] map_cong refl violations_of_assigned) auto
    have "snd (validateAll_loop (entry # rest) req errors) = snd (validateAll_loop rest ?r errors)"
      unfolding entry by (simp only: loop_Returns [where schema = "schema" and req = req and source = source, OF Returns])
    also have "\<dots> = errors @ concat (map (violations_of ?r) rest)"
      by (rule Cons.IH [OF d])
    also have "\<dots> = errors @ concat (map (violations_of req) (entry # rest))"
      using Returns entry by (simp only: meq list.map concat.simps violations_of_Returns append_Nil)
    finally show ?thesis .
  next
    case (Throws error)
    from not_ZodError_cases [of error] show ?thesis
    proof
      assume other: "\<forall>issues. cls error \<noteq> ZodError issues"
      from Cons.IH [OF d] show ?thesis
        unfolding entry by (simp add: loop_other [where schema = "schema" and req = req and source = source, OF Throws other] violations_of_other [where schema = "schema" and req = req and source = source, OF Throws other])
    next
      assume "\<exists>issues. cls error = ZodError issues"
      then obtain issues where z: "cls error = ZodError issues" by blast
      from Cons.IH [OF d] show ?thesis
        unfolding entry by (simp add: loop_ZodError [where schema = "schema" and req = req and source = source, OF Throws z] violations_of_ZodError [where schema = "schema" and req = req and source = source, OF Throws z])
    qed
  qed
qed

lemma validateAll_loop_request_other:
  "s \<notin> fst ` set schemas \<Longrightarrow>
   req_get (fst (validateAll_loop schemas req errors)) s = req_get req s"
proof (induction schemas arbitrary: req errors)
  case Nil
  show ?case by simp
next
  case (Cons entry rest)
  obtain source schema where entry: "entry = (source, schema)" by (cases entry)
  from Cons.prems entry have ne: "s \<noteq> source" and notin: "s \<notin> fst ` set rest"
    by auto
  show ?case
  proof (cases "schema (req_get req source)")
    case (Returns validated)
    from Cons.IH [OF notin] ne show ?thesis
      unfolding entry by (simp add: loop_Returns [where schema = "schema" and req = req and source = source, OF Returns] req_get_req_set)
  next
    case (Throws error)
    from not_ZodError_cases [of error] show ?thesis
    proof
      assume other: "\<forall>issues. cls error \<noteq> ZodError issues"
      from Cons.IH [OF notin] show ?thesis
        unfolding entry by (simp add: loop_other [where schema = "schema" and req = req and source = source, OF Throws other])
    next
      assume "\<exists>issues. cls error = ZodError issues"
      then obtain issues where z: "cls error = ZodError issues" by blast
      from Cons.IH [OF notin] show ?thesis
        unfolding entry by (simp add: loop_ZodError [where schema = "schema" and req = req and source = source, OF Throws z])
    qed
  qed
qed

lemma validateAll_loop_request:
  "distinct (map fst schemas) \<Longrightarrow> (s, schema) \<in> set schemas \<Longrightarrow>
   req_get (fst (validateAll_loop schemas req errors)) s = parsed_section req s schema"
proof (induction schemas arbitrary: req errors)
  case Nil
  then show ?case by simp
next
  case (Cons entry rest)
  obtain source schema' where entry: "entry = (source, schema')" by (cases entry)
  from Cons.prems entry have d: "distinct (map fst rest)" and notin: "source \<notin> fst ` set rest"
    by simp_all
  show ?case
  proof (cases "(s, schema) \<in> set rest")
    case True
    then have ne: "s \<noteq> source" using notin by force
    show ?thesis
    proof (cases "schema' (req_get req source)")
      case (Returns validated)
      from Cons.IH [OF d True] parsed_section_assigned [OF ne] show ?thesis
        unfolding entry by (simp only: loop_Returns [where schema = "schema'" and req = req and source = source, OF Returns])
    next
      case (Throws error)
      from not_ZodError_cases [of error] show ?thesis
      proof
        assume other: "\<forall>issues. cls error \<noteq> ZodError issues"
        from Cons.IH [OF d True] show ?thesis
          unfolding entry by (simp add: loop_other [where schema = "schema'" and req = req and source = source, OF Throws other])
      next
        assume "\<exists>issues. cls error = ZodError issues"
        then obtain issues where z: "cls error = ZodError issues" by blast
        from Cons.IH [OF d True] show ?thesis
          unfolding entry by (simp add: loop_ZodError [where schema = "schema'" and req = req and source = source, OF Throws z])
      qed
    qed
  next
    case False
    with Cons.prems entry have eq: "s = source" "schema = schema'" by auto
    show ?thesis
    proof (cases "schema' (req_get req source)")
      case (Returns validated)
      from validateAll_loop_request_other [OF notin] Returns show ?thesis
        unfolding entry eq
        by (simp add: loop_Returns [where schema = "schema'" and req = req and source = source, OF Returns] parsed_section_def req_get_req_set)
    next
      case (Throws error)
      from not_ZodError_cases [of error] show ?thesis
      proof
        assume other: "\<forall>issues. cls error \<noteq> ZodError issues"
        from validateAll_loop_request_other [OF notin] Throws show ?thesis
          unfolding entry eq by (simp add: loop_other [where schema = "schema'" and req = req and source = source, OF Throws other] parsed_section_def)
      next
        assume "\<exists>issues. cls error = ZodError issues"
        then obtain issues where z: "cls error = ZodError issues" by blast
        from validateAll_loop_request_other [OF notin] Throws show ?thesis
          unfolding entry eq by (simp add: loop_ZodError [where schema = "schema'" and req = req and source = source, OF Throws z] parsed_section_def)
      qed
    qed
  qed
qed

lemma validateAll_unfold:
  assumes "distinct (map fst schemas)"
  shows "validateAll schemas req =
     (fst (validateAll_loop schemas req []),
      if concat (map (violations_of req) schemas) \<noteq> []
      then [Status_json 400 (JObj
              [(''success'', JBool False),
               (''message'', JStr ''Validation failed''),
               (''errors'', JArr (concat (map (violations_of req) schemas)))])]
      else [Next None])"
proof -
  obtain req' errors where loop: "validateAll_loop schemas req [] = (req', errors)"
    by (cases "validateAll_loop schemas req []")
  from validateAll_loop_errors [OF assms, of req "[]"] loop
  have "errors = concat (map (violations_of req) schemas)" by simp
  with loop show ?thesis
    by (simp add: validateAll_def StatusCodes_BAD_REQUEST_def)
qed

lemma validateAll_loop_shape:
  assumes "\<forall>e \<in> set errors. \<exists>s f m. e = JObj [(''source'', JStr s), (''field'', JStr f), (''message'', JStr m)]"
  shows "\<forall>e \<in> set (snd (validateAll_loop schemas req errors)).
           \<exists>s f m. e = JObj [(''source'', JStr s), (''field'', JStr f), (''message'', JStr m)]"
  using assms
proof (induction schemas arbitrary: req errors)
  case Nil
  then show ?case by simp
next
  case (Cons entry rest)
  obtain source schema where entry: "entry = (source, schema)" by (cases entry)
  show ?case
  proof (cases "schema (req_get req source)")
    case (Returns validated)
    from Cons.IH [OF Cons.prems] show ?thesis
      unfolding entry by (simp only: loop_Returns [where schema = "schema" and req = req and source = source, OF Returns])
  next
    case (Throws error)
    from not_ZodError_cases [of error] show ?thesis
    proof
      assume other: "\<forall>issues. cls error \<noteq> ZodError issues"
      from Cons.IH [OF Cons.prems] show ?thesis
        unfolding entry by (simp only: loop_other [where schema = "schema" and req = req and source = source, OF Throws other])
    next
      assume "\<exists>issues. cls error = ZodError issues"
      then obtain issues where z: "cls error = ZodError issues" by blast
      let ?new = "map (\<lambda>err. JObj
                     [(''source'', JStr (source_key source)),
                      (''field'', JStr (join (map path_seg_string (issue_path err)) ''.'')),
                      (''message'', JStr (issue_message err))]) issues"
      have "\<forall>e \<in> set (errors @ ?new).
              \<exists>s f m. e = JObj [(''source'', JStr s), (''field'', JStr f), (''message'', JStr m)]"
        using Cons.prems by auto
      from Cons.IH [OF this] show ?thesis
        unfolding entry by (simp only: loop_ZodError [where schema = "schema" and req = req and source = source, OF Throws z])
    qed
  qed
qed

lemma filter_other_source:
  "s \<notin> fst ` set schemas \<Longrightarrow> filter (\<lambda>entry. fst entry \<noteq> s) schemas = schemas"
  by (induction schemas) auto

lemma validateAll_loop_skip:
  assumes "distinct (map fst schemas)" and "(s, schema) \<in> set schemas"
    and "schema (req_get req s) = Throws error" and "\<forall>issues. cls error \<noteq> ZodError issues"
  shows "validateAll_loop schemas req errors =
         validateAll_loop (filter (\<lambda>entry. fst entry \<noteq> s) schemas) req errors"
  using assms
proof (induction schemas arbitrary: req errors)
  case Nil
  then show ?case by simp
next
  case (Cons entry rest)
  obtain source schema' where entry: "entry = (source, schema')" by (cases entry)
  from Cons.prems(1) entry have d: "distinct (map fst rest)" and notin: "source \<notin> fst ` set rest"
    by simp_all
  show ?case
  proof (cases "source = s")
    case True
    with Cons.prems(2) entry notin have same: "schema' = schema" by force
    from True notin have "filter (\<lambda>entry. fst entry \<noteq> s) rest = rest"
      by (simp add: filter_other_source)
    moreover from Cons.prems(3,4) True same
    have "validateAll_loop ((source, schema') # rest) req errors = validateAll_loop rest req errors"
      by (simp add: loop_other)
    ultimately show ?thesis using True entry by simp
  next
    case False
    with Cons.prems(2) entry have mem: "(s, schema) \<in> set rest" by auto
    show ?thesis
    proof (cases "schema' (req_get req source)")
      case (Returns validated)
      let ?r = "if writable req source then req_set req source validated else req"
      from False Cons.prems(3) have "schema (req_get ?r s) = Throws error"
        by (simp add: req_get_req_set)
      from Cons.IH [OF d mem this Cons.prems(4)] False show ?thesis
        unfolding entry by (simp add: loop_Returns [where schema = "schema'" and req = req and source = source, OF Returns])
    next
      case (Throws error')
      from not_ZodError_cases [of error'] show ?thesis
      proof
        assume other: "\<forall>issues. cls error' \<noteq> ZodError issues"
        from Cons.IH [OF d mem Cons.prems(3,4)] False show ?thesis
          unfolding entry by (simp add: loop_other [where schema = "schema'" and req = req and source = source, OF Throws other])
      next
        assume "\<exists>issues. cls error' = ZodError issues"
        then obtain issues where z: "cls error' = ZodError issues" by blast
        from Cons.IH [OF d mem Cons.prems(3,4)] False show ?thesis
          unfolding entry by (simp add: loop_ZodError [where schema = "schema'" and req = req and source = source, OF Throws z])
      qed
    qed
  qed
qed

lemma concat_violations_filter:
  "\<forall>entry \<in> set schemas. fst entry = s \<longrightarrow> violations_of req entry = [] \<Longrightarrow>
   concat (map (violations_of req) schemas) =
     concat (map (violations_of req) (filter (\<lambda>entry. fst entry \<noteq> s) schemas))"
  by (induction schemas) simp_all

lemma validateAll_never_forwards: "Next (Some x) \<notin> set (snd (validateAll schemas req))"
  by (simp add: validateAll_def split: prod.splits)

lemma join_dotted:
  "join (x # xs) sep = x @ concat (map (\<lambda>s. sep @ s) xs)"
  by (induction xs arbitrary: x) simp_all

section \<open>Properties of the validators\<close>

text \<open>
  C2. When two entries of the mapping given to \<open>validateAll\<close> both fail their schemas
  (each \<open>ZodError\<close> carrying at least one issue, as the schema library guarantees), the
  middleware's only effect is one HTTP 400 response with body
  \<open>{ success: false, message: "Validation failed", errors }\<close>; \<open>errors\<close> is the concatenation
  of the entries' violations in the order of the mapping and holds a violation tagged
  with each of the two failing sources. The entries of an object have distinct keys.
\<close>

theorem validateAll_aggregates:
  assumes "distinct (map fst schemas)"
    and "(p, A) \<in> set schemas" and "(b, B) \<in> set schemas"
    and "A (req_get req p) = Throws ea" and "cls ea = ZodError ia" and "ia \<noteq> []"
    and "B (req_get req b) = Throws eb" and "cls eb = ZodError ib" and "ib \<noteq> []"
  shows "\<exists>req' es.
           validateAll schemas req =
             (req', [Status_json 400 (JObj
                       [(''success'', JBool False),
                        (''message'', JStr ''Validation failed''),
                        (''errors'', JArr es)])])
         \<and> es = concat (map (violations_of req) schemas)
         \<and> (\<exists>v \<in> set es. obj_get v ''source'' = JStr (source_key p))
         \<and> (\<exists>v \<in> set es. obj_get v ''source'' = JStr (source_key b))"
proof -
  let ?es = "concat (map (violations_of req) schemas)"
  have tagged: "\<exists>v \<in> set ?es. obj_get v ''source'' = JStr (source_key s)"
    if "(s, S) \<in> set schemas" "S (req_get req s) = Throws e" "cls e = ZodError is" "is \<noteq> []"
    for s S e "is"
  proof -
    from that(4) violations_of_ZodError [where schema = S and req = req and source = s, OF that(2,3)]
    have "violations_of req (s, S) \<noteq> []"
      by simp
    then obtain v where v: "v \<in> set (violations_of req (s, S))"
      by (cases "violations_of req (s, S)") auto
    with that(1) have "v \<in> set ?es" by auto
    with v show ?thesis using violations_of_source by blast
  qed
  from tagged [OF assms(2,4,5,6)] obtain v0 where "v0 \<in> set ?es" by blast
  then have ne: "?es \<noteq> []" by (cases ?es) simp_all
  from validateAll_unfold [OF assms(1), of req] ne
  have "validateAll schemas req =
          (fst (validateAll_loop schemas req []),
           [Status_json 400 (JObj
              [(''success'', JBool False),
               (''message'', JStr ''Validation failed''),
               (''errors'', JArr ?es)])])"
    by simp
  with tagged [OF assms(2,4,5,6)] tagged [OF assms(3,7,8,9)] show ?thesis
    by blast
qed

theorem validateAll_aggregates_witness:
  "validateAll [(Params, string_field ''id''), (Query, string_field ''q''),
                (Body, string_field ''email'')] request0 =
     (request0\<lparr>query := JObj [(''q'', JStr ''x'')]\<rparr>,
      [Status_json 400 (JObj
         [(''success'', JBool False),
          (''message'', JStr ''Validation failed''),
          (''errors'', JArr
             [JObj [(''source'', JStr ''params''), (''field'', JStr ''id''),
                    (''message'', JStr ''Required'')],
              JObj [(''source'', JStr ''body''), (''field'', JStr ''email''),
                    (''message'', JStr ''Required'')]])])])"
proof -
  let ?schemas = "[(Params, string_field ''id''), (Query, string_field ''q''),
                   (Body, string_field ''email'')]"
  have d: "distinct (map fst ?schemas)" by simp
  have p: "(Params, string_field ''id'') \<in> set ?schemas" by simp
  have b: "(Body, string_field ''email'') \<in> set ?schemas" by simp
  have pa: "string_field ''id'' (req_get request0 Params) =
              Throws (example_ZodError [ZodIssue [Key ''id''] ''Required'' ''invalid_type''])"
    by (simp add: string_field_def request0_def)
  have ba: "string_field ''email'' (req_get request0 Body) =
              Throws (example_ZodError [ZodIssue [Key ''email''] ''Required'' ''invalid_type''])"
    by (simp add: string_field_def request0_def)
  have c: "cls (example_ZodError is) = ZodError is" for "is"
    by (simp add: example_ZodError_def)
  from validateAll_aggregates [where schemas = ?schemas and req = request0 and p = Params
      and b = Body and A = "string_field ''id''" and B = "string_field ''email''",
      OF d p b pa c _ ba c]
  obtain req' es where
    eq: "validateAll ?schemas request0 =
           (req', [Status_json 400 (JObj
                     [(''success'', JBool False),
                      (''message'', JStr ''Validation failed''),
                      (''errors'', JArr es)])])"
    and es: "es = concat (map (violations_of request0) ?schemas)"
    by blast
  have "es = [JObj [(''source'', JStr ''params''), (''field'', JStr ''id''),
                    (''message'', JStr ''Required'')],
              JObj [(''source'', JStr ''body''), (''field'', JStr ''email''),
                    (''message'', JStr ''Required'')]]"
    unfolding es
    by (simp add: violations_of_def string_field_def request0_def example_ZodError_def)
  moreover have "fst (validateAll ?schemas request0) = request0\<lparr>query := JObj [(''q'', JStr ''x'')]\<rparr>"
    by (simp add: validateAll_def validateAll_loop.simps string_field_def request0_def
        example_ZodError_def)
  ultimately show ?thesis using eq by simp
qed

text \<open>
  C4. When the parse of one source of the mapping throws an error that is not a
  \<open>ZodError\<close>, \<open>validateAll\<close> goes on with the other sources: its effect is the one HTTP 400
  response with the violations of the other sources, in order, or the call of \<open>next\<close>
  without an argument when they have none; the section of the throwing source is left
  as it was and every other section holds what its own entry makes of it. The run is
  the run of the mapping without that source, \<open>next\<close> is never called with an error, and
  no violation sent is tagged with that source.
\<close>

theorem validateAll_absorbs_other_exceptions:
  assumes "distinct (map fst schemas)" and "(s, schema) \<in> set schemas"
    and "schema (req_get req s) = Throws error" and "\<forall>issues. cls error \<noteq> ZodError issues"
  shows "snd (validateAll schemas req) =
           (if concat (map (violations_of req) (filter (\<lambda>entry. fst entry \<noteq> s) schemas)) \<noteq> []
            then [Status_json 400 (JObj
                    [(''success'', JBool False),
                     (''message'', JStr ''Validation failed''),
                     (''errors'', JArr (concat (map (violations_of req)
                                         (filter (\<lambda>entry. fst entry \<noteq> s) schemas))))])]
            else [Next None])
       \<and> req_get (fst (validateAll schemas req)) s = req_get req s
       \<and> (\<forall>entry \<in> set schemas. fst entry \<noteq> s \<longrightarrow>
             req_get (fst (validateAll schemas req)) (fst entry) =
               parsed_section req (fst entry) (snd entry))
       \<and> validateAll schemas req = validateAll (filter (\<lambda>entry. fst entry \<noteq> s) schemas) req
       \<and> (\<forall>x. Next (Some x) \<notin> set (snd (validateAll schemas req)))
       \<and> (\<forall>v \<in> set (concat (map (violations_of req) schemas)).
             obj_get v ''source'' \<noteq> JStr (source_key s))"
proof (intro conjI allI ballI impI)
  let ?rest = "filter (\<lambda>entry. fst entry \<noteq> s) schemas"
  have own: "violations_of req (s, schema) = []"
    by (rule violations_of_other [where schema = schema and req = req and source = s,
          OF assms(3,4)])
  have same: "schema' = schema" if "(s, schema') \<in> set schemas" for schema'
    using that assms(1,2) by (meson eq_key_imp_eq_value)
  have "\<forall>entry \<in> set schemas. fst entry = s \<longrightarrow> violations_of req entry = []"
  proof (intro ballI impI)
    fix entry assume e: "entry \<in> set schemas" "fst entry = s"
    obtain a b where ab: "entry = (a, b)" by (cases entry)
    with e have "(s, b) \<in> set schemas" by simp
    from same [OF this] ab e(2) own show "violations_of req entry = []"
      by simp
  qed
  then have "concat (map (violations_of req) schemas) = concat (map (violations_of req) ?rest)"
    by (rule concat_violations_filter)
  then show "snd (validateAll schemas req) =
           (if concat (map (violations_of req) ?rest) \<noteq> []
            then [Status_json 400 (JObj
                    [(''success'', JBool False),
                     (''message'', JStr ''Validation failed''),
                     (''errors'', JArr (concat (map (violations_of req) ?rest)))])]
            else [Next None])"
    using validateAll_unfold [OF assms(1), of req] by simp
  have fst_eq: "fst (validateAll schemas req) = fst (validateAll_loop schemas req [])"
    using validateAll_unfold [OF assms(1), of req] by simp
  from validateAll_loop_request [OF assms(1,2), of req "[]"] assms(3)
  show "req_get (fst (validateAll schemas req)) s = req_get req s"
    by (simp add: fst_eq parsed_section_def)
  show "validateAll schemas req = validateAll ?rest req"
    unfolding validateAll_def using validateAll_loop_skip [OF assms] by simp
next
  fix entry assume "entry \<in> set schemas" "fst entry \<noteq> s"
  then have mem: "(fst entry, snd entry) \<in> set schemas" by simp
  have fst_eq: "fst (validateAll schemas req) = fst (validateAll_loop schemas req [])"
    using validateAll_unfold [OF assms(1), of req] by simp
  from validateAll_loop_request [OF assms(1) mem, of req "[]"]
  show "req_get (fst (validateAll schemas req)) (fst entry) =
          parsed_section req (fst entry) (snd entry)"
    by (simp add: fst_eq)
next
  fix x show "Next (Some x) \<notin> set (snd (validateAll schemas req))"
    by (rule validateAll_never_forwards)
next
  fix v assume "v \<in> set (concat (map (violations_of req) schemas))"
  then obtain source schema' where mem: "(source, schema') \<in> set schemas"
    and v: "v \<in> set (violations_of req (source, schema'))"
    by auto
  have "source \<noteq> s"
  proof
    assume eq: "source = s"
    with mem assms(1,2) have "schema' = schema"
      by (meson eq_key_imp_eq_value)
    with eq have "violations_of req (source, schema') = []"
      using violations_of_other [where schema = schema and req = req and source = s,
          OF assms(3,4)] by simp
    with v show False by simp
  qed
  with violations_of_source [OF v] show "obj_get v ''source'' \<noteq> JStr (source_key s)"
    using source_key_inj by auto
qed

theorem validateAll_absorbs_other_exceptions_witness:
  "validateAll [(Headers, failing_refinement), (Query, string_field ''q''),
                (Params, string_field ''id'')] request0 =
     (request0\<lparr>query := JObj [(''q'', JStr ''x'')]\<rparr>,
      [Status_json 400 (JObj
         [(''success'', JBool False),
          (''message'', JStr ''Validation failed''),
          (''errors'', JArr
             [JObj [(''source'', JStr ''params''), (''field'', JStr ''id''),
                    (''message'', JStr ''Required'')]])])])
   \<and> validateAll [(Headers, failing_refinement), (Query, string_field ''q'')] request0 =
     (request0\<lparr>query := JObj [(''q'', JStr ''x'')]\<rparr>, [Next None])"
proof -
  let ?err = "\<lparr> cls = PlainError, name = ''TypeError'', message = ''lookup failed'',
                code = JUndefined, stack = None \<rparr>"
  let ?three = "[(Headers, failing_refinement), (Query, string_field ''q''),
                 (Params, string_field ''id'')]"
  let ?two = "[(Headers, failing_refinement), (Query, string_field ''q'')]"
  have t: "failing_refinement (req_get request0 Headers) = Throws ?err"
    by (simp add: failing_refinement_def)
  have n: "\<forall>issues. cls ?err \<noteq> ZodError issues"
    by simp
  have d3: "distinct (map fst ?three)" and m3: "(Headers, failing_refinement) \<in> set ?three"
    by simp_all
  have d2: "distinct (map fst ?two)" and m2: "(Headers, failing_refinement) \<in> set ?two"
    by simp_all
  note a3 = validateAll_absorbs_other_exceptions [where schemas = ?three and req = request0
      and s = Headers and schema = failing_refinement, OF d3 m3 t n]
  note a2 = validateAll_absorbs_other_exceptions [where schemas = ?two and req = request0
      and s = Headers and schema = failing_refinement, OF d2 m2 t n]
  have v3: "concat (map (violations_of request0) (filter (\<lambda>entry. fst entry \<noteq> Headers) ?three)) =
              [JObj [(''source'', JStr ''params''), (''field'', JStr ''id''),
                     (''message'', JStr ''Required'')]]"
    by (simp add: violations_of_def string_field_def request0_def example_ZodError_def)
  have v2: "concat (map (violations_of request0) (filter (\<lambda>entry. fst entry \<noteq> Headers) ?two)) = []"
    by (simp add: violations_of_def string_field_def request0_def)
  from a3 [THEN conjunct1] have s3: "snd (validateAll ?three request0) =
      [Status_json 400 (JObj
         [(''success'', JBool False),
          (''message'', JStr ''Validation failed''),
          (''errors'', JArr
             [JObj [(''source'', JStr ''params''), (''field'', JStr ''id''),
                    (''message'', JStr ''Required'')]])])]"
    unfolding v3 by simp
  from a2 [THEN conjunct1] have s2: "snd (validateAll ?two request0) = [Next None]"
    unfolding v2 by simp
  have f3: "fst (validateAll ?three request0) = request0\<lparr>query := JObj [(''q'', JStr ''x'')]\<rparr>"
    by (simp add: validateAll_def validateAll_loop.simps string_field_def request0_def
        example_ZodError_def failing_refinement_def)
  have f2: "fst (validateAll ?two request0) = request0\<lparr>query := JObj [(''q'', JStr ''x'')]\<rparr>"
    by (simp add: validateAll_def validateAll_loop.simps string_field_def request0_def
        failing_refinement_def)
  from s3 f3 s2 f2 show ?thesis by (simp add: prod_eq_iff)
qed

text \<open>
  C5. When the section \<open>validate\<close> is applied to fails its schema, the middleware leaves
  the request as it is, does not call \<open>next\<close>, and its only effect is an HTTP 400 response
  whose body has exactly the fields \<open>success: false\<close>, \<open>message: "Validation failed"\<close> and
  \<open>errors\<close> (so no \<open>errorCode\<close>), with one entry per issue, in order, made of \<open>field\<close>,
  \<open>message\<close> and \<open>code\<close>; \<open>field\<close> is the first segment of the issue's path followed by
  every further segment with a \<open>.\<close> before it (the empty text for an empty path).
\<close>

theorem validate_failure_response:
  assumes "schema (req_get req source) = Throws error" and "cls error = ZodError issues"
  shows "\<exists>bd es.
           validate schema source req = (req, [Status_json 400 bd])
         \<and> (\<forall>e. Next e \<notin> set (snd (validate schema source req)))
         \<and> json_keys bd = [''success'', ''message'', ''errors'']
         \<and> json_get ''success'' bd = Some (JBool False)
         \<and> json_get ''message'' bd = Some (JStr ''Validation failed'')
         \<and> json_get ''errors'' bd = Some (JArr es)
         \<and> json_get ''errorCode'' bd = None
         \<and> length es = length issues
         \<and> (\<forall>i < length issues.
               es ! i = JObj
                 [(''field'', JStr
                     (case map path_seg_string (issue_path (issues ! i)) of
                        [] \<Rightarrow> []
                      | seg # segs \<Rightarrow> seg @ concat (map (\<lambda>s. CHR ''.'' # s) segs))),
                  (''message'', JStr (issue_message (issues ! i))),
                  (''code'', JStr (issue_code (issues ! i)))])"
proof -
  let ?es = "map (\<lambda>err. JObj
                 [(''field'', JStr (join (map path_seg_string (issue_path err)) ''.'')),
                  (''message'', JStr (issue_message err)),
                  (''code'', JStr (issue_code err))]) issues"
  let ?bd = "JObj [(''success'', JBool False),
                   (''message'', JStr ''Validation failed''),
                   (''errors'', JArr ?es)]"
  from assms have eq: "validate schema source req = (req, [Status_json 400 ?bd])"
    by (simp add: validate_def StatusCodes_BAD_REQUEST_def)
  have keys: "json_keys ?bd = [''success'', ''message'', ''errors'']"
    by (simp add: json_keys_def)
  have gets: "json_get ''success'' ?bd = Some (JBool False)"
    "json_get ''message'' ?bd = Some (JStr ''Validation failed'')"
    "json_get ''errors'' ?bd = Some (JArr ?es)"
    "json_get ''errorCode'' ?bd = None"
    by (simp_all add: json_get_def)
  have dotted: "join segs ''.'' =
                  (case segs of [] \<Rightarrow> [] | seg # rest \<Rightarrow> seg @ concat (map (\<lambda>s. CHR ''.'' # s) rest))"
    for segs
    by (cases segs) (simp_all add: join_dotted)
  have nth: "\<forall>i < length issues.
               ?es ! i = JObj
                 [(''field'', JStr
                     (case map path_seg_string (issue_path (issues ! i)) of
                        [] \<Rightarrow> []
                      | seg # segs \<Rightarrow> seg @ concat (map (\<lambda>s. CHR ''.'' # s) segs))),
                  (''message'', JStr (issue_message (issues ! i))),
                  (''code'', JStr (issue_code (issues ! i)))]"
    by (simp add: dotted)
  have len: "length ?es = length issues" by simp
  have nonext: "\<forall>e. Next e \<notin> set (snd (validate schema source req))"
    unfolding eq by simp
  from eq nonext keys gets len nth show ?thesis by blast
qed

theorem validate_failure_response_witness:
  "validate items_schema Body order_request =
     (order_request, [Status_json 400 (JObj
        [(''success'', JBool False),
         (''message'', JStr ''Validation failed''),
         (''errors'', JArr [JObj [(''field'', JStr ''items.1.sku''),
                                  (''message'', JStr ''Required''),
                                  (''code'', JStr ''invalid_type'')]])])])"
proof -
  let ?issues = "[ZodIssue [Key ''items'', Index 1, Key ''sku''] ''Required'' ''invalid_type'']"
  have t: "items_schema (req_get order_request Body) = Throws (example_ZodError ?issues)"
    by (simp add: items_schema_def order_request_def request0_def)
  have c: "cls (example_ZodError ?issues) = ZodError ?issues"
    by (simp add: example_ZodError_def)
  from validate_failure_response [where schema = items_schema and req = order_request
      and source = Body, OF t c]
  obtain bd es where eq: "validate items_schema Body order_request =
                              (order_request, [Status_json 400 bd])"
    and keys: "json_keys bd = [''success'', ''message'', ''errors'']"
    and errs: "json_get ''errors'' bd = Some (JArr es)"
    and len: "length es = length ?issues"
    and nth: "\<forall>i < length ?issues.
               es ! i = JObj
                 [(''field'', JStr
                     (case map path_seg_string (issue_path (?issues ! i)) of
                        [] \<Rightarrow> []
                      | seg # segs \<Rightarrow> seg @ concat (map (\<lambda>s. CHR ''.'' # s) segs))),
                  (''message'', JStr (issue_message (?issues ! i))),
                  (''code'', JStr (issue_code (?issues ! i)))]"
    by blast
  from nth have "es ! 0 = JObj [(''field'', JStr ''items.1.sku''),
                                (''message'', JStr ''Required''),
                                (''code'', JStr ''invalid_type'')]"
    by (simp add: String_of_nat.simps)
  with len have es: "es = [JObj [(''field'', JStr ''items.1.sku''),
                                 (''message'', JStr ''Required''),
                                 (''code'', JStr ''invalid_type'')]]"
    by (cases es) simp_all
  have "bd = JObj [(''success'', JBool False),
                   (''message'', JStr ''Validation failed''),
                   (''errors'', JArr es)]"
    using eq t c by (simp add: validate_def StatusCodes_BAD_REQUEST_def)
       (simp add: example_ZodError_def String_of_nat.simps es)
  with eq es show ?thesis by simp
qed

text \<open>
  C9. In a response \<open>validateAll\<close> sends, \<open>errors\<close> is a non-empty array and every
  element has exactly the fields \<open>source\<close>, \<open>field\<close> and \<open>message\<close>, with no \<open>code\<close>; every
  element of the \<open>errors\<close> of a response \<open>validate\<close> sends has the fields \<open>field\<close>,
  \<open>message\<close> and \<open>code\<close>.
\<close>

theorem validateAll_violation_fields:
  "(Status_json st bd \<in> set (snd (validateAll schemas req)) \<longrightarrow>
      (\<exists>es. json_get ''errors'' bd = Some (JArr es) \<and> es \<noteq> [] \<and>
            (\<forall>e \<in> set es. json_keys e = [''source'', ''field'', ''message'']
                          \<and> json_get ''code'' e = None)))
   \<and> (Status_json st' bd' \<in> set (snd (validate schema source req')) \<longrightarrow>
      (\<exists>es. json_get ''errors'' bd' = Some (JArr es) \<and>
            (\<forall>e \<in> set es. json_keys e = [''field'', ''message'', ''code''])))"
proof (intro conjI impI)
  assume sent: "Status_json st bd \<in> set (snd (validateAll schemas req))"
  obtain r errors where loop: "validateAll_loop schemas req [] = (r, errors)"
    by (cases "validateAll_loop schemas req []")
  from sent loop have bd_eq: "bd = JObj [(''success'', JBool False),
                          (''message'', JStr ''Validation failed''),
                          (''errors'', JArr errors)]" and ne: "errors \<noteq> []"
    by (auto simp: validateAll_def split: if_splits)
  have "\<forall>e \<in> set (snd (validateAll_loop schemas req [])).
           \<exists>s f m. e = JObj [(''source'', JStr s), (''field'', JStr f), (''message'', JStr m)]"
    by (rule validateAll_loop_shape) simp
  with loop have "\<forall>e \<in> set errors. json_keys e = [''source'', ''field'', ''message'']
                          \<and> json_get ''code'' e = None"
    by (auto simp: json_keys_def json_get_def)
  with bd_eq ne show "\<exists>es. json_get ''errors'' bd = Some (JArr es) \<and> es \<noteq> [] \<and>
            (\<forall>e \<in> set es. json_keys e = [''source'', ''field'', ''message'']
                          \<and> json_get ''code'' e = None)"
    by (simp add: json_get_def)
next
  assume sent: "Status_json st' bd' \<in> set (snd (validate schema source req'))"
  then show "\<exists>es. json_get ''errors'' bd' = Some (JArr es) \<and>
            (\<forall>e \<in> set es. json_keys e = [''field'', ''message'', ''code''])"
    by (auto simp: validate_def Let_def json_get_def json_keys_def
        split: parse_result.splits error_class.splits if_splits)
qed

theorem validateAll_violation_fields_witness:
  "Status_json 400 (JObj
      [(''success'', JBool False),
       (''message'', JStr ''Validation failed''),
       (''errors'', JArr [JObj [(''source'', JStr ''params''), (''field'', JStr ''id''),
                                (''message'', JStr ''Required'')]])])
     \<in> set (snd (validateAll [(Params, string_field ''id'')] request0))
   \<and> Status_json 400 (JObj
      [(''success'', JBool False),
       (''message'', JStr ''Validation failed''),
       (''errors'', JArr [JObj [(''field'', JStr ''id''), (''message'', JStr ''Required''),
                                (''code'', JStr ''invalid_type'')]])])
     \<in> set (snd (validate (string_field ''id'') Params request0))
   \<and> json_keys (JObj [(''source'', JStr ''params''), (''field'', JStr ''id''),
                      (''message'', JStr ''Required'')]) = [''source'', ''field'', ''message'']
   \<and> json_keys (JObj [(''field'', JStr ''id''), (''message'', JStr ''Required''),
                      (''code'', JStr ''invalid_type'')]) = [''field'', ''message'', ''code'']"
proof -
  let ?v = "JObj [(''source'', JStr ''params''), (''field'', JStr ''id''),
                  (''message'', JStr ''Required'')]"
  let ?w = "JObj [(''field'', JStr ''id''), (''message'', JStr ''Required''),
                  (''code'', JStr ''invalid_type'')]"
  let ?bd = "JObj [(''success'', JBool False), (''message'', JStr ''Validation failed''),
                   (''errors'', JArr [?v])]"
  let ?bd' = "JObj [(''success'', JBool False), (''message'', JStr ''Validation failed''),
                    (''errors'', JArr [?w])]"
  have m: "Status_json 400 ?bd \<in> set (snd (validateAll [(Params, string_field ''id'')] request0))"
    by (simp add: validateAll_def validateAll_loop.simps string_field_def request0_def
        example_ZodError_def StatusCodes_BAD_REQUEST_def)
  have m': "Status_json 400 ?bd' \<in> set (snd (validate (string_field ''id'') Params request0))"
    by (simp add: validate_def string_field_def request0_def example_ZodError_def
        StatusCodes_BAD_REQUEST_def)
  have e: "json_get ''errors'' ?bd = Some (JArr [?v])" "json_get ''errors'' ?bd' = Some (JArr [?w])"
    by (simp_all add: json_get_def)
  from validateAll_violation_fields [of 400 ?bd "[(Params, string_field ''id'')]" request0
      400 ?bd' "string_field ''id''" Params request0] m m' e
  have "json_keys ?v = [''source'', ''field'', ''message'']"
    and "json_keys ?w = [''field'', ''message'', ''code'']"
    by auto
  with m m' show ?thesis by blast
qed





section \<open>Properties of the error handler\<close>

lemma truthy_of_optional: "truthy (of_optional x) \<longleftrightarrow> (\<exists>s. x = Some s \<and> s \<noteq> [])"
  by (cases x) simp_all

lemma truthy_defined: "truthy d \<Longrightarrow> d \<noteq> JUndefined"
  by (cases d) simp_all

lemma errorHandler_unfold:
  assumes "errorHandler_classify err = (sc, m, ec, d)"
  shows "\<exists>meta. errorHandler cfg now err req =
           [Logger_error (''['' @ String_of_nat sc @ ''] '' @ m) meta,
            Status_json sc
              (error_envelope m ec (requestId req) (toISOString now) d (isDevelopment cfg)
                 (stack err))]"
  using assms by (simp add: errorHandler_def error_envelope_def Let_def)

lemma json_get_envelope:
  shows "json_get ''success'' (error_envelope m ec rid ts d dev st) = Some (JBool False)"
    and "json_get ''message'' (error_envelope m ec rid ts d dev st) = Some (JStr m)"
    and "json_get ''errorCode'' (error_envelope m ec rid ts d dev st) =
           Some (JStr (ErrorCode_value ec))"
    and "json_get ''requestId'' (error_envelope m ec rid ts d dev st) = map_option JStr rid"
    and "json_get ''timestamp'' (error_envelope m ec rid ts d dev st) = Some (JStr ts)"
    and "json_get ''errors'' (error_envelope m ec rid ts d dev st) =
           (if truthy d then Some d else None)"
    and "json_get ''stack'' (error_envelope m ec rid ts d dev st) =
           (if dev \<and> truthy (of_optional st) then map_option JStr st else None)"
proof -
  show "json_get ''success'' (error_envelope m ec rid ts d dev st) = Some (JBool False)"
    by (simp add: error_envelope_def json_get_def)
  show "json_get ''message'' (error_envelope m ec rid ts d dev st) = Some (JStr m)"
    by (cases rid) (simp_all add: error_envelope_def json_get_def)
  show "json_get ''errorCode'' (error_envelope m ec rid ts d dev st) =
           Some (JStr (ErrorCode_value ec))"
    by (cases rid) (simp_all add: error_envelope_def json_get_def)
  show "json_get ''requestId'' (error_envelope m ec rid ts d dev st) = map_option JStr rid"
    by (cases rid) (simp_all add: error_envelope_def json_get_def)
  show "json_get ''timestamp'' (error_envelope m ec rid ts d dev st) = Some (JStr ts)"
    by (cases rid) (simp_all add: error_envelope_def json_get_def)
  show "json_get ''errors'' (error_envelope m ec rid ts d dev st) =
           (if truthy d then Some d else None)"
    by (cases rid) (auto simp: error_envelope_def json_get_def dest: truthy_defined)
  show "json_get ''stack'' (error_envelope m ec rid ts d dev st) =
           (if dev \<and> truthy (of_optional st) then map_option JStr st else None)"
    by (cases rid; cases st) (auto simp: error_envelope_def json_get_def dest: truthy_defined)
qed

lemma errorHandler_classify_unrecognized:
  assumes "cls err = PlainError"
    and "name err \<notin> {''ValidationError'', ''UnauthorizedError'', ''JsonWebTokenError'', ''CastError''}"
    and "code err \<noteq> JNum 11000" and "code err \<noteq> JStr ''ECONNREFUSED''"
  shows "errorHandler_classify err =
           (500, (if message err \<noteq> [] then message err else ''Something went wrong''),
            INTERNAL_SERVER_ERROR, JUndefined)"
  using assms by (simp add: errorHandler_classify_def StatusCodes_INTERNAL_SERVER_ERROR_def)

text \<open>
  C1. (amended) For every error that is neither a \<open>ZodError\<close> nor an \<open>AppError\<close>,
  whose name is none of the recognised names and whose code is neither 11000 nor
  \<open>"ECONNREFUSED"\<close>, the handler answers with status 500 and \<open>errorCode\<close>
  \<open>INTERNAL_SERVER_ERROR\<close> in every mode; the message is the error's own message when
  that is not empty and \<open>"Something went wrong"\<close> otherwise, in production as well; there
  is no \<open>errors\<close> field; and the \<open>stack\<close> field is present exactly when \<open>NODE_ENV\<close> is
  \<open>development\<close> and the error has a non-empty stack, so never in production.
\<close>

theorem unrecognized_error_response:
  assumes "cls err = PlainError"
    and "name err \<notin> {''ValidationError'', ''UnauthorizedError'', ''JsonWebTokenError'', ''CastError''}"
    and "code err \<noteq> JNum 11000" and "code err \<noteq> JStr ''ECONNREFUSED''"
  shows "\<exists>log bd.
           errorHandler (config penv) now err req = [log, Status_json 500 bd]
         \<and> json_get ''message'' bd =
             Some (JStr (if message err \<noteq> [] then message err else ''Something went wrong''))
         \<and> json_get ''errorCode'' bd = Some (JStr ''INTERNAL_SERVER_ERROR'')
         \<and> json_get ''errors'' bd = None
         \<and> json_get ''stack'' bd =
             (if penv ''NODE_ENV'' = Some ''development'' \<and> (\<exists>s. stack err = Some s \<and> s \<noteq> [])
              then map_option JStr (stack err) else None)
         \<and> (isProduction (config penv) \<longrightarrow> json_get ''stack'' bd = None)"
proof -
  let ?m = "if message err \<noteq> [] then message err else ''Something went wrong''"
  let ?bd = "error_envelope ?m INTERNAL_SERVER_ERROR (requestId req) (toISOString now) JUndefined
               (isDevelopment (config penv)) (stack err)"
  from errorHandler_unfold [OF errorHandler_classify_unrecognized [OF assms], of "config penv" now req]
  obtain log where eq: "errorHandler (config penv) now err req = [log, Status_json 500 ?bd]"
    by blast
  have dev: "isDevelopment (config penv) \<longleftrightarrow> penv ''NODE_ENV'' = Some ''development''"
    by (simp add: config_def)
  have prod: "isProduction (config penv) \<Longrightarrow> \<not> isDevelopment (config penv)"
    by (simp add: config_def)
  have m: "json_get ''message'' ?bd = Some (JStr ?m)"
    by (rule json_get_envelope)
  have c: "json_get ''errorCode'' ?bd = Some (JStr ''INTERNAL_SERVER_ERROR'')"
    by (simp add: json_get_envelope)
  have e: "json_get ''errors'' ?bd = None"
    by (simp add: json_get_envelope)
  have s: "json_get ''stack'' ?bd =
             (if penv ''NODE_ENV'' = Some ''development'' \<and> (\<exists>s. stack err = Some s \<and> s \<noteq> [])
              then map_option JStr (stack err) else None)"
    by (simp add: json_get_envelope dev truthy_of_optional)
  have p: "isProduction (config penv) \<longrightarrow> json_get ''stack'' ?bd = None"
    using prod by (simp add: json_get_envelope)
  from eq m c e s p show ?thesis by blast
qed

theorem unrecognized_error_response_witness:
  "errorHandler (config [''NODE_ENV'' \<mapsto> ''development'']) now0
     (Error_new ''boom'' ''Error: boom at handler'') request0 =
   [Logger_error ''[500] boom''
      (JObj [(''errorCode'', JStr ''INTERNAL_SERVER_ERROR''),
             (''error'', JStr ''boom''),
             (''stack'', JStr ''Error: boom at handler''),
             (''path'', JStr ''/users/0''),
             (''method'', JStr ''POST''),
             (''requestId'', JStr ''req-1''),
             (''ip'', JStr ''127.0.0.1''),
             (''userAgent'', JStr ''curl'')]),
    Status_json 500
      (JObj [(''success'', JBool False),
             (''message'', JStr ''boom''),
             (''errorCode'', JStr ''INTERNAL_SERVER_ERROR''),
             (''requestId'', JStr ''req-1''),
             (''timestamp'', JStr ''2024-05-01T12:00:00.123Z''),
             (''stack'', JStr ''Error: boom at handler'')])]"
proof -
  let ?err = "Error_new ''boom'' ''Error: boom at handler''"
  have h: "cls ?err = PlainError"
    "name ?err \<notin> {''ValidationError'', ''UnauthorizedError'', ''JsonWebTokenError'', ''CastError''}"
    "code ?err \<noteq> JNum 11000" "code ?err \<noteq> JStr ''ECONNREFUSED''"
    by (simp_all add: Error_new_def)
  from unrecognized_error_response [OF h, of "[''NODE_ENV'' \<mapsto> ''development'']" now0 request0]
  obtain log bd where
    "errorHandler (config [''NODE_ENV'' \<mapsto> ''development'']) now0 ?err request0 =
       [log, Status_json 500 bd]"
    by blast
  then show ?thesis
    by (simp add: errorHandler_def errorHandler_classify_def Error_new_def request0_def
        config_def req_header_def StatusCodes_INTERNAL_SERVER_ERROR_def String_of_nat.simps
        toISOString_now0)
qed

text \<open>
  The claim as first stated fails: in production the message \<open>boom\<close> of \<open>new Error("boom")\<close>
  reaches the client, and in the non-production mode \<open>test\<close> the response has no stack.
\<close>

theorem unrecognized_error_counterexample:
  "isProduction (config [''NODE_ENV'' \<mapsto> ''production''])
   \<and> errorHandler (config [''NODE_ENV'' \<mapsto> ''production'']) now0
       (Error_new ''boom'' ''Error: boom at handler'') request0 =
     [Logger_error ''[500] boom''
        (JObj [(''errorCode'', JStr ''INTERNAL_SERVER_ERROR''),
               (''error'', JStr ''boom''),
               (''stack'', JStr ''Error: boom at handler''),
               (''path'', JStr ''/users/0''),
               (''method'', JStr ''POST''),
               (''requestId'', JStr ''req-1''),
               (''ip'', JStr ''127.0.0.1''),
               (''userAgent'', JStr ''curl'')]),
      Status_json 500
        (JObj [(''success'', JBool False),
               (''message'', JStr ''boom''),
               (''errorCode'', JStr ''INTERNAL_SERVER_ERROR''),
               (''requestId'', JStr ''req-1''),
               (''timestamp'', JStr ''2024-05-01T12:00:00.123Z'')])]
   \<and> \<not> isProduction (config [''NODE_ENV'' \<mapsto> ''test''])
   \<and> errorHandler (config [''NODE_ENV'' \<mapsto> ''test'']) now0
       (Error_new ''boom'' ''Error: boom at handler'') request0 =
     [Logger_error ''[500] boom''
        (JObj [(''errorCode'', JStr ''INTERNAL_SERVER_ERROR''),
               (''error'', JStr ''boom''),
               (''stack'', JStr ''Error: boom at handler''),
               (''path'', JStr ''/users/0''),
               (''method'', JStr ''POST''),
               (''requestId'', JStr ''req-1''),
               (''ip'', JStr ''127.0.0.1''),
               (''userAgent'', JStr ''curl'')]),
      Status_json 500
        (JObj [(''success'', JBool False),
               (''message'', JStr ''boom''),
               (''errorCode'', JStr ''INTERNAL_SERVER_ERROR''),
               (''requestId'', JStr ''req-1''),
               (''timestamp'', JStr ''2024-05-01T12:00:00.123Z'')])]"
  by (simp add: errorHandler_def errorHandler_classify_def Error_new_def request0_def
      config_def req_header_def StatusCodes_INTERNAL_SERVER_ERROR_def String_of_nat.simps
        toISOString_now0)

text \<open>
  C3. For every \<open>AppError\<close> instance, whatever its name and code, the classification is
  the instance's own \<open>statusCode\<close>, \<open>message\<close>, \<open>errorCode\<close> and \<open>details\<close>, and the
  response carries that status, message and error code (and the details as \<open>errors\<close>
  when they are truthy). The error \<open>AppError.notFound("User not found", {userId: "123"})\<close>
  classifies to 404, \<open>"User not found"\<close>, \<open>NOT_FOUND\<close> and \<open>{userId: "123"}\<close>.
\<close>

theorem AppError_passthrough:
  assumes "cls err = AppError a"
  shows "errorHandler_classify err = (statusCode a, message err, errorCode a, details a)
       \<and> (\<exists>log bd.
             errorHandler cfg now err req = [log, Status_json (statusCode a) bd]
           \<and> json_get ''message'' bd = Some (JStr (message err))
           \<and> json_get ''errorCode'' bd = Some (JStr (ErrorCode_value (errorCode a)))
           \<and> json_get ''errors'' bd = (if truthy (details a) then Some (details a) else None))
       \<and> errorHandler_classify
            (notFound (Some ''User not found'') (JObj [(''userId'', JStr ''123'')]) trace) =
           (404, ''User not found'', NOT_FOUND, JObj [(''userId'', JStr ''123'')])"
proof -
  from assms
  have cl: "errorHandler_classify err = (statusCode a, message err, errorCode a, details a)"
    by (simp add: errorHandler_classify_def)
  let ?bd = "error_envelope (message err) (errorCode a) (requestId req) (toISOString now) (details a)
               (isDevelopment cfg) (stack err)"
  from errorHandler_unfold [OF cl, of cfg now req]
  obtain log where eq: "errorHandler cfg now err req = [log, Status_json (statusCode a) ?bd]"
    by blast
  have g: "json_get ''message'' ?bd = Some (JStr (message err))"
    "json_get ''errorCode'' ?bd = Some (JStr (ErrorCode_value (errorCode a)))"
    "json_get ''errors'' ?bd = (if truthy (details a) then Some (details a) else None)"
    by (simp_all only: json_get_envelope)
  have ex: "errorHandler_classify
            (notFound (Some ''User not found'') (JObj [(''userId'', JStr ''123'')]) trace) =
           (404, ''User not found'', NOT_FOUND, JObj [(''userId'', JStr ''123'')])"
    by (simp add: errorHandler_classify_def notFound_def AppError_new_def)
  from cl eq g ex show ?thesis by blast
qed

theorem AppError_passthrough_witness:
  "name renamed_AppError = ''ValidationError'' \<and> code renamed_AppError = JNum 11000
   \<and> errorHandler_classify renamed_AppError =
       (409, ''Email already registered'', CONFLICT, JObj [(''email'', JStr ''a@b.c'')])"
proof -
  have c: "cls renamed_AppError =
             AppError \<lparr> statusCode = 409, isOperational = True, errorCode = CONFLICT,
                        details = JObj [(''email'', JStr ''a@b.c'')] \<rparr>"
    by (simp add: renamed_AppError_def conflict_def AppError_new_def)
  have m: "message renamed_AppError = ''Email already registered''"
    "name renamed_AppError = ''ValidationError''" "code renamed_AppError = JNum 11000"
    by (simp_all add: renamed_AppError_def conflict_def AppError_new_def)
  from AppError_passthrough [OF c] m show ?thesis by simp
qed

text \<open>
  C6. (amended) Every response of the error handler has \<open>success: false\<close>, the
  classified \<open>message\<close> and \<open>errorCode\<close>, the \<open>requestId\<close> when the request has one (no such
  field otherwise) and a \<open>timestamp\<close> that is the ISO-8601 text \<open>toISOString\<close> gives for
  the clock (a time value is at most 8.64e15 in magnitude); the \<open>errors\<close> field is
  present exactly when the classified details are truthy, and then holds them; a
  \<open>stack\<close> field is present only when \<open>NODE_ENV\<close> is \<open>development\<close>, which is not
  production.
\<close>

theorem errorHandler_envelope:
  assumes "\<bar>now\<bar> \<le> 8640000000000000"
  shows "\<exists>sc m ec d log bd.
       errorHandler_classify err = (sc, m, ec, d)
     \<and> errorHandler (config penv) now err req = [log, Status_json sc bd]
     \<and> json_get ''success'' bd = Some (JBool False)
     \<and> json_get ''message'' bd = Some (JStr m)
     \<and> json_get ''errorCode'' bd = Some (JStr (ErrorCode_value ec))
     \<and> json_get ''requestId'' bd = map_option JStr (requestId req)
     \<and> json_get ''timestamp'' bd = Some (JStr (toISOString now))
     \<and> iso8601 (toISOString now)
     \<and> (json_get ''errors'' bd = (if truthy d then Some d else None))
     \<and> (json_get ''stack'' bd \<noteq> None \<longrightarrow>
           isDevelopment (config penv) \<and> \<not> isProduction (config penv)
         \<and> json_get ''stack'' bd = map_option JStr (stack err))"
proof -
  obtain sc m ec d where cl: "errorHandler_classify err = (sc, m, ec, d)"
    by (cases "errorHandler_classify err")
  let ?bd = "error_envelope m ec (requestId req) (toISOString now) d
               (isDevelopment (config penv)) (stack err)"
  from errorHandler_unfold [OF cl, of "config penv" now req]
  obtain log where eq: "errorHandler (config penv) now err req = [log, Status_json sc ?bd]"
    by blast
  have prod: "isDevelopment (config penv) \<Longrightarrow> \<not> isProduction (config penv)"
    by (auto simp: config_def)
  have st: "json_get ''stack'' ?bd \<noteq> None \<longrightarrow>
           isDevelopment (config penv) \<and> \<not> isProduction (config penv)
         \<and> json_get ''stack'' ?bd = map_option JStr (stack err)"
    using prod by (simp add: json_get_envelope)
  note g = json_get_envelope [of m ec "requestId req" "toISOString now" d
      "isDevelopment (config penv)" "stack err"]
  note iso = toISOString_iso8601 [OF assms]
  from cl eq g(1-6) iso st show ?thesis by blast
qed

theorem errorHandler_envelope_witness:
  "\<bar>now0\<bar> \<le> 8640000000000000
   \<and> errorHandler (config [''NODE_ENV'' \<mapsto> ''development'']) now0
     (badRequest ''Invalid quantity'' (JObj [(''qty'', JNum 0)]) ''Error: at handler'')
     (request0 \<lparr> requestId := None \<rparr>) =
   [Logger_error ''[400] Invalid quantity''
      (JObj [(''errorCode'', JStr ''BAD_REQUEST''),
             (''error'', JStr ''Invalid quantity''),
             (''stack'', JStr ''Error: at handler''),
             (''path'', JStr ''/users/0''),
             (''method'', JStr ''POST''),
             (''requestId'', JUndefined),
             (''ip'', JStr ''127.0.0.1''),
             (''userAgent'', JStr ''curl''),
             (''details'', JObj [(''qty'', JNum 0)])]),
    Status_json 400
      (JObj [(''success'', JBool False),
             (''message'', JStr ''Invalid quantity''),
             (''errorCode'', JStr ''BAD_REQUEST''),
             (''requestId'', JUndefined),
             (''timestamp'', JStr ''2024-05-01T12:00:00.123Z''),
             (''errors'', JObj [(''qty'', JNum 0)]),
             (''stack'', JStr ''Error: at handler'')])]
   \<and> json_get ''requestId''
        (JObj [(''success'', JBool False),
             (''message'', JStr ''Invalid quantity''),
             (''errorCode'', JStr ''BAD_REQUEST''),
             (''requestId'', JUndefined),
             (''timestamp'', JStr ''2024-05-01T12:00:00.123Z''),
             (''errors'', JObj [(''qty'', JNum 0)]),
             (''stack'', JStr ''Error: at handler'')]) = None
   \<and> iso8601 ''2024-05-01T12:00:00.123Z''"
proof -
  let ?err = "badRequest ''Invalid quantity'' (JObj [(''qty'', JNum 0)]) ''Error: at handler''"
  let ?req = "request0 \<lparr> requestId := None \<rparr>"
  let ?penv = "[''NODE_ENV'' \<mapsto> ''development'']"
  have h: "\<bar>now0\<bar> \<le> 8640000000000000" by (simp add: now0_def)
  from errorHandler_envelope [OF h, of ?err ?penv ?req]
  obtain sc m ec d log bd where cl: "errorHandler_classify ?err = (sc, m, ec, d)"
    and eq: "errorHandler (config ?penv) now0 ?err ?req = [log, Status_json sc bd]"
    and rid: "json_get ''requestId'' bd = map_option JStr (requestId ?req)"
    and iso: "iso8601 (toISOString now0)"
    by blast
  have ev: "errorHandler (config ?penv) now0 ?err ?req =
   [Logger_error ''[400] Invalid quantity''
      (JObj [(''errorCode'', JStr ''BAD_REQUEST''),
             (''error'', JStr ''Invalid quantity''),
             (''stack'', JStr ''Error: at handler''),
             (''path'', JStr ''/users/0''),
             (''method'', JStr ''POST''),
             (''requestId'', JUndefined),
             (''ip'', JStr ''127.0.0.1''),
             (''userAgent'', JStr ''curl''),
             (''details'', JObj [(''qty'', JNum 0)])]),
    Status_json 400
      (JObj [(''success'', JBool False),
             (''message'', JStr ''Invalid quantity''),
             (''errorCode'', JStr ''BAD_REQUEST''),
             (''requestId'', JUndefined),
             (''timestamp'', JStr ''2024-05-01T12:00:00.123Z''),
             (''errors'', JObj [(''qty'', JNum 0)]),
             (''stack'', JStr ''Error: at handler'')])]"
    by (simp add: errorHandler_def errorHandler_classify_def badRequest_def AppError_new_def
        request0_def config_def req_header_def String_of_nat.simps toISOString_now0)
  from iso have iso': "iso8601 ''2024-05-01T12:00:00.123Z''"
    by (simp only: toISOString_now0)
  from ev eq rid have "json_get ''requestId''
        (JObj [(''success'', JBool False),
             (''message'', JStr ''Invalid quantity''),
             (''errorCode'', JStr ''BAD_REQUEST''),
             (''requestId'', JUndefined),
             (''timestamp'', JStr ''2024-05-01T12:00:00.123Z''),
             (''errors'', JObj [(''qty'', JNum 0)]),
             (''stack'', JStr ''Error: at handler'')]) = None"
    by (simp add: request0_def)
  with h ev iso' show ?thesis by blast
qed

text \<open>
  The claim as first stated fails: \<open>AppError.badRequest("Invalid quantity", 0)\<close> classifies
  with the details \<open>0\<close>, which is not \<open>undefined\<close>, and the response has no \<open>errors\<close> field.
\<close>

theorem errorHandler_envelope_counterexample:
  "errorHandler_classify (badRequest ''Invalid quantity'' (JNum 0) ''trace'') =
     (400, ''Invalid quantity'', BAD_REQUEST, JNum 0)
   \<and> JNum 0 \<noteq> JUndefined
   \<and> errorHandler (config [''NODE_ENV'' \<mapsto> ''production'']) now0
       (badRequest ''Invalid quantity'' (JNum 0) ''trace'') request0 =
     [Logger_error ''[400] Invalid quantity''
        (JObj [(''errorCode'', JStr ''BAD_REQUEST''),
               (''error'', JStr ''Invalid quantity''),
               (''stack'', JStr ''trace''),
               (''path'', JStr ''/users/0''),
               (''method'', JStr ''POST''),
               (''requestId'', JStr ''req-1''),
               (''ip'', JStr ''127.0.0.1''),
               (''userAgent'', JStr ''curl'')]),
      Status_json 400
        (JObj [(''success'', JBool False),
               (''message'', JStr ''Invalid quantity''),
               (''errorCode'', JStr ''BAD_REQUEST''),
               (''requestId'', JStr ''req-1''),
               (''timestamp'', JStr ''2024-05-01T12:00:00.123Z'')])]"
  by (simp add: errorHandler_def errorHandler_classify_def badRequest_def AppError_new_def
      request0_def config_def req_header_def String_of_nat.simps toISOString_now0)

text \<open>
  C7. For a request no route matched, \<open>notFoundHandler\<close> calls \<open>next\<close> with an
  \<open>AppError\<close> of status 404, error code \<open>NOT_FOUND\<close> and message \<open>"Route not found: "\<close>
  followed by the request's original URL; the handlers \<open>addErrorHandlers\<close> installs pass
  it to \<open>errorHandler\<close>, whose response is the 404 envelope with the same fields as for
  any other error.
\<close>

theorem notFoundHandler_forwards:
  "\<exists>error log bd.
       notFoundHandler trace req = [Next (Some error)]
     \<and> cls error = AppError \<lparr> statusCode = 404, isOperational = True, errorCode = NOT_FOUND,
                              details = JUndefined \<rparr>
     \<and> message error = ''Route not found: '' @ originalUrl req
     \<and> errorHandler_classify error =
         (404, ''Route not found: '' @ originalUrl req, NOT_FOUND, JUndefined)
     \<and> addErrorHandlers cfg now trace req = errorHandler cfg now error req
     \<and> errorHandler cfg now error req = [log, Status_json 404 bd]
     \<and> json_get ''success'' bd = Some (JBool False)
     \<and> json_get ''message'' bd = Some (JStr (''Route not found: '' @ originalUrl req))
     \<and> json_get ''errorCode'' bd = Some (JStr ''NOT_FOUND'')
     \<and> json_get ''requestId'' bd = map_option JStr (requestId req)
     \<and> json_get ''timestamp'' bd = Some (JStr (toISOString now))
     \<and> json_get ''errors'' bd = None"
proof -
  let ?m = "''Route not found: '' @ originalUrl req"
  let ?error = "notFound (Some ?m) JUndefined trace"
  have nf: "notFoundHandler trace req = [Next (Some ?error)]"
    by (simp add: notFoundHandler_def)
  have c: "cls ?error = AppError \<lparr> statusCode = 404, isOperational = True, errorCode = NOT_FOUND,
                              details = JUndefined \<rparr>"
    and m: "message ?error = ?m"
    by (simp_all add: notFound_def AppError_new_def)
  from c m have cl: "errorHandler_classify ?error = (404, ?m, NOT_FOUND, JUndefined)"
    by (simp add: errorHandler_classify_def)
  have fw: "addErrorHandlers cfg now trace req = errorHandler cfg now ?error req"
    by (simp add: addErrorHandlers_def nf)
  let ?bd = "error_envelope ?m NOT_FOUND (requestId req) (toISOString now) JUndefined
               (isDevelopment cfg) (stack ?error)"
  from errorHandler_unfold [OF cl, of cfg now req]
  obtain log where eq: "errorHandler cfg now ?error req = [log, Status_json 404 ?bd]"
    by blast
  have g: "json_get ''success'' ?bd = Some (JBool False)"
    "json_get ''message'' ?bd = Some (JStr ?m)"
    "json_get ''errorCode'' ?bd = Some (JStr ''NOT_FOUND'')"
    "json_get ''requestId'' ?bd = map_option JStr (requestId req)"
    "json_get ''timestamp'' ?bd = Some (JStr (toISOString now))"
    "json_get ''errors'' ?bd = None"
    by (simp_all add: json_get_envelope)
  from nf c m cl fw eq g show ?thesis by blast
qed

theorem notFoundHandler_forwards_witness:
  "addErrorHandlers (config [''NODE_ENV'' \<mapsto> ''production'']) now0
     ''Error: Route not found'' request0 =
   [Logger_error ''[404] Route not found: /users/0?q=x''
      (JObj [(''errorCode'', JStr ''NOT_FOUND''),
             (''error'', JStr ''Route not found: /users/0?q=x''),
             (''stack'', JStr ''Error: Route not found''),
             (''path'', JStr ''/users/0''),
             (''method'', JStr ''POST''),
             (''requestId'', JStr ''req-1''),
             (''ip'', JStr ''127.0.0.1''),
             (''userAgent'', JStr ''curl'')]),
    Status_json 404
      (JObj [(''success'', JBool False),
             (''message'', JStr ''Route not found: /users/0?q=x''),
             (''errorCode'', JStr ''NOT_FOUND''),
             (''requestId'', JStr ''req-1''),
             (''timestamp'', JStr ''2024-05-01T12:00:00.123Z'')])]"
proof -
  let ?cfg = "config [''NODE_ENV'' \<mapsto> ''production'']"
  from notFoundHandler_forwards [of "''Error: Route not found''" request0 ?cfg now0]
  obtain error where nf: "notFoundHandler ''Error: Route not found'' request0 = [Next (Some error)]"
    and fw: "addErrorHandlers ?cfg now0 ''Error: Route not found'' request0 =
               errorHandler ?cfg now0 error request0"
    by blast
  from nf have "error = notFound (Some (''Route not found: '' @ originalUrl request0)) JUndefined
                          ''Error: Route not found''"
    by (simp add: notFoundHandler_def)
  with fw show ?thesis
    by (simp add: errorHandler_def errorHandler_classify_def notFound_def AppError_new_def
        request0_def config_def req_header_def String_of_nat.simps toISOString_now0)
qed

end
